theory Spec2Isabelle
  imports Complex_Main "HOL-Library.Char_ord" "HOL-Library.List_Lexorder" "HOL-Library.Multiset"
    "HOL-Library.Word" "HOL-Library.Log_Nat"
begin

section \<open>Values, tables and errors\<close>

text \<open>
  The script \<^verbatim>\<open>CDC_healthdata_political_correlations.py\<close> is a straight-line pandas
  program.  A table (DataFrame) is modelled column-major, as pandas stores it: the length of
  its index and the list of its named columns.  A cell is a string, a number, a geometry or
  the missing value (pandas' \<^verbatim>\<open>NaN\<close>/\<^verbatim>\<open>None\<close>).  A number is a double-precision float:
  a finite float is the rational number it denotes, beside the two infinities; the
  not-a-number is the missing value.  The sign of a zero is not kept: the script never
  reads it.
\<close>

datatype fnum = Fin rat | PInf | NInf

datatype 'g cell = NA | Str string | Num fnum | Geom 'g

datatype error = KeyError | AttributeError | IndexError | TypeError

record 'g frame =
  index_len :: nat
  cols :: "(string \<times> 'g cell list) list"

definition col_names :: "'g frame \<Rightarrow> string list" where
  "col_names h = map fst (cols h)"

text \<open>A table as \<^verbatim>\<open>read_csv\<close> builds it: distinct column names, every column as long
  as the index.\<close>

definition wf_frame :: "'g frame \<Rightarrow> bool" where
  "wf_frame h \<longleftrightarrow>
     distinct (col_names h) \<and> list_all (\<lambda>cv. length (snd cv) = index_len h) (cols h)"

text \<open>\<^verbatim>\<open>df[name]\<close>: the column, or \<^verbatim>\<open>KeyError\<close>.\<close>

definition get_col :: "'g frame \<Rightarrow> string \<Rightarrow> error + 'g cell list" where
  "get_col h c = (case map_of (cols h) c of None \<Rightarrow> Inl KeyError | Some vs \<Rightarrow> Inr vs)"

text \<open>\<^verbatim>\<open>df.name\<close>: the column, or \<^verbatim>\<open>AttributeError\<close>.\<close>

definition get_attr :: "'g frame \<Rightarrow> string \<Rightarrow> error + 'g cell list" where
  "get_attr h c = (case map_of (cols h) c of None \<Rightarrow> Inl AttributeError | Some vs \<Rightarrow> Inr vs)"

text \<open>\<^verbatim>\<open>Series.unique()\<close>: the distinct values in order of first appearance; the
  missing value counts as one value.\<close>

fun unique :: "'a list \<Rightarrow> 'a list" where
  "unique [] = []"
| "unique (x # xs) = x # unique (filter (\<lambda>y. y \<noteq> x) xs)"

section \<open>Double-precision arithmetic\<close>

text \<open>
  The arithmetic of lines 49 and 50 is that of IEEE 754 doubles: the exact result, rounded
  to the nearest double, ties to the even significand.  For a positive rational \<open>x\<close> the
  exponent \<open>ilog2 x\<close> is the \<open>e\<close> with \<open>2\<^sup>e \<le> x < 2\<^sup>e\<^sup>+\<^sup>1\<close>; the doubles around \<open>x\<close> are
  the multiples of \<open>ulp x\<close>, which is \<open>2\<^sup>e\<^sup>-\<^sup>5\<^sup>2\<close> and never less than \<open>2\<^sup>-\<^sup>1\<^sup>0\<^sup>7\<^sup>4\<close>
  (the subnormal range); a result that rounds to \<open>2\<^sup>1\<^sup>0\<^sup>2\<^sup>4\<close> or beyond is an infinity.
\<close>

definition ilog2 :: "rat \<Rightarrow> int" where
  "ilog2 x =
     (let d = bitlen (fst (quotient_of x)) - bitlen (snd (quotient_of x))
      in if 2 powi d \<le> x then d else d - 1)"

definition round_half_even :: "rat \<Rightarrow> int" where
  "round_half_even r =
     (let f = \<lfloor>r\<rfloor>; d = r - of_int f
      in if d < 1 / 2 then f else if 1 / 2 < d then f + 1 else if even f then f else f + 1)"

definition ulp :: "rat \<Rightarrow> rat" where
  "ulp x = 2 powi (max (ilog2 \<bar>x\<bar>) (- 1022) - 52)"

definition nearest64 :: "rat \<Rightarrow> rat" where
  "nearest64 x = (if x = 0 then 0 else sgn x * of_int (round_half_even (\<bar>x\<bar> / ulp x)) * ulp x)"

definition round64 :: "rat \<Rightarrow> fnum" where
  "round64 x =
     (if 2 powi 1024 \<le> \<bar>nearest64 x\<bar> then (if 0 < x then PInf else NInf)
      else Fin (nearest64 x))"

section \<open>Cleaning the health table (lines 27 to 38)\<close>

definition denylist :: "string list" where
  "denylist = [''DataValueFootnoteSymbol'', ''TopicID'', ''QuestionID'', ''DataValueTypeID'',
     ''StratificationCategoryID1'', ''StratificationID1'']"

text \<open>The loop of lines 30 to 33 appends to the denylist every column with fewer than three
  distinct values, in column order.\<close>

definition useless_cols :: "'g frame \<Rightarrow> string list" where
  "useless_cols h =
     denylist @ map fst (filter (\<lambda>cv. length (unique (snd cv)) < 3) (cols h))"

text \<open>\<^verbatim>\<open>df.drop(labels, axis=1)\<close>: \<^verbatim>\<open>KeyError\<close> when a label names no column, else the
  table without the labelled columns.\<close>

definition drop_columns :: "string list \<Rightarrow> 'g frame \<Rightarrow> error + 'g frame" where
  "drop_columns labels h =
     (if set labels \<subseteq> set (col_names h)
      then Inr (h\<lparr>cols := filter (\<lambda>cv. fst cv \<notin> set labels) (cols h)\<rparr>)
      else Inl KeyError)"

definition prune_columns :: "'g frame \<Rightarrow> error + 'g frame" where
  "prune_columns h = drop_columns (useless_cols h) h"


text \<open>\<^verbatim>\<open>df[name] = values\<close>: replaces the column of that name in place, or appends a new
  column.\<close>

definition set_col :: "'g frame \<Rightarrow> string \<Rightarrow> 'g cell list \<Rightarrow> 'g frame" where
  "set_col h c vs =
     (if c \<in> set (col_names h)
      then h\<lparr>cols := map (\<lambda>cv. if fst cv = c then (c, vs) else cv) (cols h)\<rparr>
      else h\<lparr>cols := cols h @ [(c, vs)]\<rparr>)"

text \<open>Line 38, \<^verbatim>\<open>pd.to_numeric(healthdata.DataValue, errors="coerce")\<close>.  How a string
  reads as a number is the library's business: \<open>parse\<close> is a parameter.  What does not read
  as a number becomes the missing value.\<close>

fun to_numeric_cell :: "(string \<Rightarrow> fnum option) \<Rightarrow> 'g cell \<Rightarrow> 'g cell" where
  "to_numeric_cell parse (Str s) = (case parse s of None \<Rightarrow> NA | Some x \<Rightarrow> Num x)"
| "to_numeric_cell parse (Num x) = Num x"
| "to_numeric_cell parse NA = NA"
| "to_numeric_cell parse (Geom g) = NA"

definition coerce_DataValue :: "(string \<Rightarrow> fnum option) \<Rightarrow> 'g frame \<Rightarrow> error + 'g frame" where
  "coerce_DataValue parse h =
     (case get_attr h ''DataValue'' of
        Inl e \<Rightarrow> Inl e
      | Inr vs \<Rightarrow> Inr (set_col h ''DataValue'' (map (to_numeric_cell parse) vs)))"

section \<open>Election data (lines 42 to 52)\<close>

text \<open>
  A row of the election table.  The key and the percentage columns change type between the
  county file (a possibly missing state, percentages as read) and the table grouped by
  state (a state, percentages recomputed by a float division), so the record is polymorphic
  in both.  Vote counts are the 64-bit signed integers of an \<^verbatim>\<open>int64\<close> column.  The
  county identifier is a column of the file and of the summed table only: line 48 drops it,
  which is the step from \<open>county_votes\<close> back to \<open>votes\<close>.
\<close>

record ('k, 'p) votes =
  state_abbr :: 'k
  votes_dem :: "64 word"
  votes_gop :: "64 word"
  total_votes :: "64 word"
  per_dem :: 'p
  per_gop :: 'p

record ('k, 'p) county_votes = "('k, 'p) votes" +
  combined_fips :: "64 word"

text \<open>
  \<^verbatim>\<open>votedata.groupby(['state_abbr'], as_index=False).sum()\<close>: one row per distinct
  key, keys ascending, rows with a missing key left out, every integer column summed in
  \<^verbatim>\<open>int64\<close>, where a sum past \<open>2\<^sup>6\<^sup>3\<close> wraps around.  The same call sums the two
  percentage columns of the county file; line 48 drops those two sums before anything
  reads them, so the model does not compute them: the summed table has the unit value in
  their place, and the percentages of the county file can be of any type.
\<close>

definition group_keys :: "(string option, 'p) county_votes list \<Rightarrow> string list" where
  "group_keys vd = sort (remdups (List.map_filter state_abbr vd))"

definition group_rows ::
  "(string option, 'p) county_votes list \<Rightarrow> string \<Rightarrow> (string option, 'p) county_votes list" where
  "group_rows vd k = filter (\<lambda>r. state_abbr r = Some k) vd"

definition sum_group ::
  "(string option, 'p) county_votes list \<Rightarrow> string \<Rightarrow> (string, unit) county_votes" where
  "sum_group vd k =
     \<lparr>state_abbr = k,
      votes_dem = sum_list (map votes_dem (group_rows vd k)),
      votes_gop = sum_list (map votes_gop (group_rows vd k)),
      total_votes = sum_list (map total_votes (group_rows vd k)),
      per_dem = (),
      per_gop = (),
      combined_fips = sum_list (map combined_fips (group_rows vd k))\<rparr>"

definition groupby_sum :: "(string option, 'p) county_votes list \<Rightarrow> (string, unit) county_votes list" where
  "groupby_sum vd = map (sum_group vd) (group_keys vd)"

text \<open>
  \<^verbatim>\<open>votes / total\<close> on two \<^verbatim>\<open>int64\<close> columns: each integer is converted to the nearest
  double, and the quotient of the two doubles is rounded.  \<open>None\<close> is \<^verbatim>\<open>NaN\<close> (zero by
  zero), a nonzero count by zero is an infinity.  Then \<^verbatim>\<open>* 100\<close>, which rounds again.
\<close>

definition float_of_int64 :: "64 word \<Rightarrow> rat" where
  "float_of_int64 w = nearest64 (of_int (sint w))"

definition fdiv :: "64 word \<Rightarrow> 64 word \<Rightarrow> fnum option" where
  "fdiv a b =
     (let x = float_of_int64 a; y = float_of_int64 b
      in if y \<noteq> 0 then Some (round64 (x / y))
         else if x = 0 then None
         else if 0 < x then Some PInf else Some NInf)"

fun times100 :: "fnum option \<Rightarrow> fnum option" where
  "times100 (Some (Fin x)) = Some (round64 (x * 100))"
| "times100 v = v"

text \<open>Lines 48 to 52: the summed percentage columns and the summed county identifier are
  dropped, and the percentages are computed anew from the summed counts.\<close>

definition recalculate :: "(string, unit) county_votes \<Rightarrow> (string, fnum option) votes" where
  "recalculate g =
     \<lparr>state_abbr = state_abbr g,
      votes_dem = votes_dem g,
      votes_gop = votes_gop g,
      total_votes = total_votes g,
      per_dem = times100 (fdiv (votes_dem g) (total_votes g)),
      per_gop = times100 (fdiv (votes_gop g) (total_votes g))\<rparr>"

definition grouped :: "(string option, 'p) county_votes list \<Rightarrow> (string, fnum option) votes list" where
  "grouped vd = map recalculate (groupby_sum vd)"

section \<open>Joining votes and geometries onto the health table (lines 55 to 96)\<close>

text \<open>Lines 55 to 58: the dictionary from state to the pair of percentages.\<close>

definition voteDict :: "(string, fnum option) votes list \<Rightarrow> (string \<rightharpoonup> fnum option \<times> fnum option)" where
  "voteDict gs = fold (\<lambda>g m. m(state_abbr g \<mapsto> (per_dem g, per_gop g))) gs Map.empty"

definition cell_of :: "fnum option \<Rightarrow> 'g cell" where
  "cell_of v = (case v of None \<Rightarrow> NA | Some x \<Rightarrow> Num x)"

text \<open>
  Lines 63 to 69, for one row.  \<^verbatim>\<open>row["LocationAbbr"]\<close> raises \<^verbatim>\<open>KeyError\<close> when the
  table has no such column, and \<^verbatim>\<open>voteDict[...]\<close> raises it when the cell is not a key
  (a missing cell or a number is never one: the keys are strings).  Both are caught by the
  same handler, which stores \<^verbatim>\<open>None\<close> twice.
\<close>

definition vote_lookup :: "(string \<rightharpoonup> fnum option \<times> fnum option) \<Rightarrow> 'g cell \<Rightarrow> 'g cell \<times> 'g cell" where
  "vote_lookup vdict loc =
     (case loc of
        Str s \<Rightarrow> (case vdict s of None \<Rightarrow> (NA, NA) | Some dg \<Rightarrow> (cell_of (fst dg), cell_of (snd dg)))
      | _ \<Rightarrow> (NA, NA))"

text \<open>The cells of \<^verbatim>\<open>LocationAbbr\<close> in index order, as \<^verbatim>\<open>iterrows\<close> visits them; a table
  without the column gives a missing cell for each row of the index.\<close>

definition location_cells :: "'g frame \<Rightarrow> 'g cell list" where
  "location_cells h =
     (case get_col h ''LocationAbbr'' of Inl e \<Rightarrow> replicate (index_len h) NA | Inr locs \<Rightarrow> locs)"

definition add_votes :: "(string \<rightharpoonup> fnum option \<times> fnum option) \<Rightarrow> 'g frame \<Rightarrow> 'g frame" where
  "add_votes vdict h =
     (let per_dems = map (\<lambda>loc. fst (vote_lookup vdict loc)) (location_cells h);
          per_gops = map (\<lambda>loc. snd (vote_lookup vdict loc)) (location_cells h)
      in set_col (set_col h ''per_dem'' per_dems) ''per_gop'' per_gops)"

text \<open>Lines 77 to 81: the dictionary from state to polygon; a later row of the shapefile
  overwrites an earlier one with the same abbreviation.\<close>

definition stateDict :: "(string \<times> 'g) list \<Rightarrow> (string \<rightharpoonup> 'g)" where
  "stateDict ss = fold (\<lambda>sg m. m(fst sg \<mapsto> snd sg)) ss Map.empty"

definition geometry_lookup :: "(string \<rightharpoonup> 'g) \<Rightarrow> 'g cell \<Rightarrow> 'g cell" where
  "geometry_lookup sdict loc =
     (case loc of
        Str s \<Rightarrow> (case sdict s of None \<Rightarrow> NA | Some g \<Rightarrow> Geom g)
      | _ \<Rightarrow> NA)"

text \<open>Lines 84 to 96: the geometry series, and the GeoDataFrame that holds it as its column
  \<^verbatim>\<open>geometry\<close>.\<close>

definition add_geometry :: "(string \<rightharpoonup> 'g) \<Rightarrow> 'g frame \<Rightarrow> 'g frame" where
  "add_geometry sdict h =
     set_col h ''geometry'' (map (geometry_lookup sdict) (location_cells h))"

definition healthdata_gdf ::
  "(string option, 'p) county_votes list \<Rightarrow> (string \<times> 'g) list \<Rightarrow> 'g frame \<Rightarrow> 'g frame" where
  "healthdata_gdf vd ss h = add_geometry (stateDict ss) (add_votes (voteDict (grouped vd)) h)"


section \<open>What the libraries compute\<close>

text \<open>
  Five computations of the runtime and its libraries are parameters of the model:
  how \<^verbatim>\<open>pd.to_numeric\<close> reads a string as a number (line 38); the floating-point
  algorithm of \<^verbatim>\<open>numpy.corrcoef\<close> on two arrays of equal length without \<^verbatim>\<open>NaN\<close>
  (line 107); the order in which \<^verbatim>\<open>list.sort\<close> leaves a list of 64 elements or more,
  given as the list of the original positions, from the comparison between positions and
  the length (line 116); how Python rounds a float to three decimals and how it writes
  one (lines 126 and 128).
\<close>

record lib =
  parse_numeric :: "string \<Rightarrow> fnum option"
  corrcoef :: "fnum list \<Rightarrow> fnum list \<Rightarrow> real option"
  merge_order :: "(nat \<Rightarrow> nat \<Rightarrow> bool) \<Rightarrow> nat \<Rightarrow> nat list"
  str_float :: "real option \<Rightarrow> string"
  round3 :: "real option \<Rightarrow> real option"

section \<open>Correlation per question (lines 100 to 114)\<close>

text \<open>\<^verbatim>\<open>df.loc[mask]\<close>: the rows where the mask holds, in order, in every column.\<close>

definition select_rows :: "bool list \<Rightarrow> 'a list \<Rightarrow> 'a list" where
  "select_rows keep vs = map snd (filter fst (zip keep vs))"

definition loc_rows :: "'g frame \<Rightarrow> bool list \<Rightarrow> 'g frame" where
  "loc_rows h keep =
     \<lparr>index_len = length (filter id keep),
      cols = map (\<lambda>cv. (fst cv, select_rows keep (snd cv))) (cols h)\<rparr>"

text \<open>\<^verbatim>\<open>series == scalar\<close>, cell by cell: a missing value equals nothing, itself
  included.\<close>

definition eq_scalar :: "'g cell \<Rightarrow> 'g cell \<Rightarrow> bool" where
  "eq_scalar c q \<longleftrightarrow> c \<noteq> NA \<and> c = q"

text \<open>
  \<^verbatim>\<open>a.corr(b)\<close> of pandas, for two columns of one table (so aligned row by row).  As
  \<^verbatim>\<open>nanops.nancorr\<close> does it: \<^verbatim>\<open>valid = notna(a) & notna(b)\<close> marks the rows where
  neither value is missing, both arrays are cut down to those rows, and with no row left
  the result is the Python float \<^verbatim>\<open>nan\<close>; otherwise it is the \<^verbatim>\<open>numpy.float64\<close> that
  \<^verbatim>\<open>numpy.corrcoef(a, b)[0, 1]\<close> returns on the two arrays, \<open>None\<close> when that is
  \<^verbatim>\<open>NaN\<close>.  The two Python types are kept apart because line 125 tests for one of them.
  A cell that is a string or a geometry is rejected with an error (named \<open>TypeError\<close> here;
  which exception pandas raises depends on its version); after line 38 and the join neither
  column holds one.  A coefficient is kept as the real number the double denotes.
\<close>

datatype coeff = PyFloat "real option" | NpFloat "real option"

fun coeff_val :: "coeff \<Rightarrow> real option" where
  "coeff_val (PyFloat x) = x"
| "coeff_val (NpFloat x) = x"

fun numeric :: "'g cell \<Rightarrow> bool" where
  "numeric NA = True"
| "numeric (Num x) = True"
| "numeric (Str s) = False"
| "numeric (Geom g) = False"

fun num_of :: "'g cell \<Rightarrow> fnum option" where
  "num_of (Num x) = Some x"
| "num_of c = None"

definition series_corr ::
  "(fnum list \<Rightarrow> fnum list \<Rightarrow> real option) \<Rightarrow> 'g cell list \<Rightarrow> 'g cell list \<Rightarrow> error + coeff" where
  "series_corr np_corrcoef a b =
     (if \<not> (list_all numeric a \<and> list_all numeric b) then Inl TypeError
      else let valid = map (\<lambda>ab. fst ab \<noteq> NA \<and> snd ab \<noteq> NA) (zip a b);
               a_valid = List.map_filter num_of (select_rows valid a);
               b_valid = List.map_filter num_of (select_rows valid b)
           in if length a_valid < 1 then Inr (PyFloat None)
              else Inr (NpFloat (np_corrcoef a_valid b_valid)))"

text \<open>
  \<^verbatim>\<open>Series.mode()\<close>: the values that occur most often among the cells that are not
  missing, ascending.  A column of strings is sorted as Python sorts strings (by code
  point), a column of numbers by value; where pandas cannot sort (mixed types) it warns and
  returns the values unsorted, for which the model takes the order of first appearance.
\<close>

definition count_of :: "'a \<Rightarrow> 'a list \<Rightarrow> nat" where
  "count_of v vs = length (filter (\<lambda>x. x = v) vs)"

fun str_of :: "'g cell \<Rightarrow> string option" where
  "str_of (Str s) = Some s"
| "str_of c = None"

fun fin_of :: "fnum \<Rightarrow> rat option" where
  "fin_of (Fin x) = Some x"
| "fin_of x = None"

definition sort_nums :: "fnum list \<Rightarrow> fnum list" where
  "sort_nums ns =
     filter (\<lambda>x. x = NInf) ns @ map Fin (sort (List.map_filter fin_of ns)) @ filter (\<lambda>x. x = PInf) ns"

definition sort_cells :: "'g cell list \<Rightarrow> 'g cell list" where
  "sort_cells ms =
     (if list_all (\<lambda>c. str_of c \<noteq> None) ms then map Str (sort (List.map_filter str_of ms))
      else if list_all (\<lambda>c. num_of c \<noteq> None) ms then map Num (sort_nums (List.map_filter num_of ms))
      else ms)"

definition mode :: "'g cell list \<Rightarrow> 'g cell list" where
  "mode vs =
     (let present = filter (\<lambda>c. c \<noteq> NA) vs;
          top = fold max (map (\<lambda>v. count_of v present) present) 0
      in sort_cells (filter (\<lambda>v. count_of v present = top) (unique present)))"

text \<open>An element of \<^verbatim>\<open>CORRELATIONS\<close>: the tuple of line 111.\<close>

record 'g entry =
  question :: "'g cell"
  units :: "'g cell"
  correlation :: coeff
  sub_gdf :: "'g frame"

text \<open>The body of the loop, lines 105 to 114: the entry to append, if any.\<close>

definition process_question :: "lib \<Rightarrow> 'g frame \<Rightarrow> 'g cell \<Rightarrow> error + 'g entry option" where
  "process_question L gdf q =
     (case get_col gdf ''Question'' of Inl e \<Rightarrow> Inl e | Inr qs \<Rightarrow>
      let sub1 = loc_rows gdf (map (\<lambda>c. eq_scalar c q) qs) in
      case get_col sub1 ''Stratification1'' of Inl e \<Rightarrow> Inl e | Inr st \<Rightarrow>
      let sub = loc_rows sub1 (map (\<lambda>c. eq_scalar c (Str ''Overall'')) st) in
      case get_col sub ''DataValue'' of Inl e \<Rightarrow> Inl e | Inr dv \<Rightarrow>
      case get_col sub ''per_gop'' of Inl e \<Rightarrow> Inl e | Inr pg \<Rightarrow>
      case series_corr (corrcoef L) dv pg of Inl e \<Rightarrow> Inl e | Inr c \<Rightarrow>
      case get_attr sub ''DataValueUnit'' of Inl e \<Rightarrow> Inl e | Inr us \<Rightarrow>
      (case mode us of
         [] \<Rightarrow> Inr None
       | u # more_modes \<Rightarrow> Inr (Some \<lparr>question = q, units = u, correlation = c, sub_gdf = sub\<rparr>)))"

fun process_all :: "lib \<Rightarrow> 'g frame \<Rightarrow> 'g cell list \<Rightarrow> 'g entry list \<Rightarrow> error + 'g entry list" where
  "process_all L gdf [] acc = Inr acc"
| "process_all L gdf (q # qs) acc =
     (case process_question L gdf q of
        Inl e \<Rightarrow> Inl e
      | Inr None \<Rightarrow> process_all L gdf qs acc
      | Inr (Some e) \<Rightarrow> process_all L gdf qs (acc @ [e]))"

text \<open>Lines 100 to 114: \<^verbatim>\<open>QUESTIONS\<close> and the list \<^verbatim>\<open>CORRELATIONS\<close> before it is
  sorted.\<close>

definition QUESTIONS :: "'g frame \<Rightarrow> error + 'g cell list" where
  "QUESTIONS gdf = (case get_attr gdf ''Question'' of Inl e \<Rightarrow> Inl e | Inr qs \<Rightarrow> Inr (unique qs))"

definition CORRELATIONS :: "lib \<Rightarrow> 'g frame \<Rightarrow> error + 'g entry list" where
  "CORRELATIONS L gdf = (case QUESTIONS gdf of Inl e \<Rightarrow> Inl e | Inr qs \<Rightarrow> process_all L gdf qs [])"


section \<open>Sorting the results (line 116)\<close>

text \<open>
  \<^verbatim>\<open>CORRELATIONS.sort(key=lambda x: x[2])\<close> compares the keys with the \<^verbatim>\<open><\<close> of floats,
  which is false whenever an operand is \<^verbatim>\<open>NaN\<close>.
\<close>

definition float_lt :: "real option \<Rightarrow> real option \<Rightarrow> bool" where
  "float_lt a b = (case (a, b) of (Some x, Some y) \<Rightarrow> x < y | _ \<Rightarrow> False)"

definition key_lt :: "'g entry \<Rightarrow> 'g entry \<Rightarrow> bool" where
  "key_lt a b = float_lt (coeff_val (correlation a)) (coeff_val (correlation b))"

text \<open>
  The sort is CPython's \<^verbatim>\<open>list.sort\<close>.  On a list of fewer than 64 elements it is:
  \<^verbatim>\<open>count_run\<close> finds the longest run at the front that is either non-descending or
  strictly descending (and reverses a descending one), then \<^verbatim>\<open>binarysort\<close> inserts each
  remaining element into the sorted front at the place a bisection finds.  (The run
  detection is that of CPython up to 3.11; from 3.12 on \<^verbatim>\<open>count_run\<close> also extends a
  descending run over equal elements.)  A list of 64 elements or more is cut into runs of
  at least \<^verbatim>\<open>minrun\<close> elements, which are merged by galloping: that phase is the
  parameter \<open>merge_order\<close>.  Whatever the comparison answers, \<^verbatim>\<open>list.sort\<close> leaves a
  permutation of the list, so a value of the parameter that is not a permutation of the
  positions is not used.
\<close>

fun ascending_run :: "('a \<Rightarrow> 'a \<Rightarrow> bool) \<Rightarrow> 'a \<Rightarrow> 'a list \<Rightarrow> nat" where
  "ascending_run lt prev [] = 0"
| "ascending_run lt prev (x # xs) = (if lt x prev then 0 else Suc (ascending_run lt x xs))"

fun descending_run :: "('a \<Rightarrow> 'a \<Rightarrow> bool) \<Rightarrow> 'a \<Rightarrow> 'a list \<Rightarrow> nat" where
  "descending_run lt prev [] = 0"
| "descending_run lt prev (x # xs) = (if lt x prev then Suc (descending_run lt x xs) else 0)"

fun count_run :: "('a \<Rightarrow> 'a \<Rightarrow> bool) \<Rightarrow> 'a list \<Rightarrow> nat \<times> bool" where
  "count_run lt [] = (0, False)"
| "count_run lt [x] = (1, False)"
| "count_run lt (x # y # ys) =
     (if lt y x then (2 + descending_run lt y ys, True)
      else (2 + ascending_run lt y ys, False))"

function bisect :: "('a \<Rightarrow> 'a \<Rightarrow> bool) \<Rightarrow> 'a list \<Rightarrow> 'a \<Rightarrow> nat \<Rightarrow> nat \<Rightarrow> nat" where
  "bisect lt xs pivot l r =
     (if l < r
      then let p = l + (r - l) div 2
           in if lt pivot (xs ! p) then bisect lt xs pivot l p else bisect lt xs pivot (p + 1) r
      else l)"
  by pat_completeness auto
termination
  by (relation "measure (\<lambda>(lt, xs, pivot, l, r). r - l)") auto

declare bisect.simps [simp del]

definition insert_at :: "nat \<Rightarrow> 'a \<Rightarrow> 'a list \<Rightarrow> 'a list" where
  "insert_at l x xs = take l xs @ x # drop l xs"

fun binarysort :: "('a \<Rightarrow> 'a \<Rightarrow> bool) \<Rightarrow> 'a list \<Rightarrow> 'a list \<Rightarrow> 'a list" where
  "binarysort lt front [] = front"
| "binarysort lt front (pivot # rest) =
     binarysort lt (insert_at (bisect lt front pivot 0 (length front)) pivot front) rest"

definition short_sort :: "('a \<Rightarrow> 'a \<Rightarrow> bool) \<Rightarrow> 'a list \<Rightarrow> 'a list" where
  "short_sort lt xs =
     (let n = fst (count_run lt xs);
          front = (if snd (count_run lt xs) then rev (take n xs) else take n xs)
      in binarysort lt front (drop n xs))"

definition list_sort ::
  "((nat \<Rightarrow> nat \<Rightarrow> bool) \<Rightarrow> nat \<Rightarrow> nat list) \<Rightarrow> ('a \<Rightarrow> 'a \<Rightarrow> bool) \<Rightarrow> 'a list \<Rightarrow> 'a list" where
  "list_sort merge lt xs =
     (if length xs < 64 then short_sort lt xs
      else let order = merge (\<lambda>i j. lt (xs ! i) (xs ! j)) (length xs)
           in if sort order = [0..<length xs] then map (\<lambda>i. xs ! i) order else xs)"

definition sorted_CORRELATIONS :: "lib \<Rightarrow> 'g entry list \<Rightarrow> 'g entry list" where
  "sorted_CORRELATIONS L cs = list_sort (merge_order L) key_lt cs"

section \<open>The report (lines 119 to 128) and the plot (lines 131 to 145)\<close>

text \<open>How Python rounds a float to three decimals and how it writes one are the parameters
  \<open>round3\<close> and \<open>str_float\<close>.\<close>

definition newline :: char where
  "newline = CHR 0x0A"

definition headline :: string where
  "headline = ''Correlation coeffecients between CDC health data questions and percentage of Republican votes on a state-by-state basis'' @ [newline, newline]"

text \<open>\<^verbatim>\<open>entry[0] + " (" + entry[1] + ")"\<close>: string concatenation, a \<^verbatim>\<open>TypeError\<close> when
  the question or the unit is not a string.\<close>

definition qstring :: "'g entry \<Rightarrow> error + string" where
  "qstring e =
     (case (question e, units e) of
        (Str q, Str u) \<Rightarrow> Inr (q @ '' ('' @ u @ '')'')
      | _ \<Rightarrow> Inl TypeError)"

text \<open>\<^verbatim>\<open>"{:_<200}".format(s)\<close>: left-justified in a field at least 200 wide, filled with
  underscores.\<close>

definition format_200 :: "string \<Rightarrow> string" where
  "format_200 s = s @ replicate (200 - length s) (CHR ''_'')"

text \<open>Lines 125 to 128: rounded when the type is exactly Python's \<^verbatim>\<open>float\<close>.\<close>

fun coeff_text :: "lib \<Rightarrow> coeff \<Rightarrow> string" where
  "coeff_text L (PyFloat x) = str_float L (round3 L x) @ [newline]"
| "coeff_text L (NpFloat x) = str_float L x @ [newline]"

definition report_line :: "lib \<Rightarrow> 'g entry \<Rightarrow> error + string" where
  "report_line L e =
     (case qstring e of
        Inl err \<Rightarrow> Inl err
      | Inr s \<Rightarrow> Inr (format_200 s @ coeff_text L (correlation e)))"

text \<open>The loop of line 121 over the file: what has been written, and the error that stopped
  the loop, if any.\<close>

fun write_entries :: "lib \<Rightarrow> 'g entry list \<Rightarrow> string \<Rightarrow> string \<times> error option" where
  "write_entries L [] out = (out, None)"
| "write_entries L (e # es) out =
     (case report_line L e of
        Inl err \<Rightarrow> (out, Some err)
      | Inr line \<Rightarrow> write_entries L es (out @ line))"

definition write_report :: "lib \<Rightarrow> 'g entry list \<Rightarrow> string \<times> error option" where
  "write_report L cs = write_entries L cs headline"

text \<open>What is drawn: the title, the table plotted, the column that colours it and the
  fixed extent.  The rendering itself is the plotting library's and is not modelled.\<close>

record 'g plot =
  suptitle :: string
  to_plot :: "'g frame"
  colour_column :: string
  xlim :: "int \<times> int"
  ylim :: "int \<times> int"

definition generate_plot :: "'g entry list \<Rightarrow> error + 'g plot" where
  "generate_plot cs =
     (case cs of
        [] \<Rightarrow> Inl IndexError
      | e # es \<Rightarrow>
          (case qstring e of
             Inl err \<Rightarrow> Inl err
           | Inr title \<Rightarrow>
               Inr \<lparr>suptitle = title, to_plot = sub_gdf e, colour_column = ''DataValue'',
                    xlim = (- 180, - 60), ylim = (20, 75)\<rparr>))"

section \<open>The whole script\<close>

text \<open>A run ends with the report file as it was left (\<open>None\<close>: never opened) and either the
  plot shown or the error that stopped it.\<close>

record 'g outcome =
  report_file :: "string option"
  shown :: "error + 'g plot"

text \<open>Lines 116 to 145, from the list the loop has collected.\<close>

definition report_and_plot :: "lib \<Rightarrow> 'g entry list \<Rightarrow> 'g outcome" where
  "report_and_plot L cs =
     (case write_report L (sorted_CORRELATIONS L cs) of
        (out, Some e) \<Rightarrow> \<lparr>report_file = Some out, shown = Inl e\<rparr>
      | (out, None) \<Rightarrow>
          \<lparr>report_file = Some out, shown = generate_plot (sorted_CORRELATIONS L cs)\<rparr>)"

text \<open>Lines 100 to 145, from the joined table.\<close>

definition analyse :: "lib \<Rightarrow> 'g frame \<Rightarrow> 'g outcome" where
  "analyse L gdf =
     (case CORRELATIONS L gdf of
        Inl e \<Rightarrow> \<lparr>report_file = None, shown = Inl e\<rparr>
      | Inr cs \<Rightarrow> report_and_plot L cs)"

definition run ::
  "lib \<Rightarrow> 'g frame \<Rightarrow> (string \<times> 'g) list \<Rightarrow> (string option, 'p) county_votes list \<Rightarrow> 'g outcome" where
  "run L healthdata states_gdf votedata =
     (case prune_columns healthdata of
        Inl e \<Rightarrow> \<lparr>report_file = None, shown = Inl e\<rparr>
      | Inr h1 \<Rightarrow>
          (case coerce_DataValue (parse_numeric L) h1 of
             Inl e \<Rightarrow> \<lparr>report_file = None, shown = Inl e\<rparr>
           | Inr h2 \<Rightarrow> analyse L (healthdata_gdf votedata states_gdf h2)))"


section \<open>Notions used to state the properties\<close>

text \<open>
  The claim on the election aggregate speaks of whole numbers and of exact percentages: a
  whole number fits an \<^verbatim>\<open>int64\<close> when it lies between \<open>-2\<^sup>6\<^sup>3\<close> and \<open>2\<^sup>6\<^sup>3 - 1\<close>; the
  exact percentage of a count in a total is the rational number \<open>100 * count / total\<close>; a
  double is close to a rational when it differs from it by at most the fraction \<open>2\<^sup>-\<^sup>5\<^sup>1\<close>
  of it (two roundings).
\<close>

definition in_int64 :: "int \<Rightarrow> bool" where
  "in_int64 n \<longleftrightarrow> - (2 ^ 63) \<le> n \<and> n < 2 ^ 63"

definition exact_percentage :: "int \<Rightarrow> int \<Rightarrow> rat" where
  "exact_percentage part whole = 100 * of_int part / of_int whole"

definition close_to :: "rat \<Rightarrow> rat \<Rightarrow> bool" where
  "close_to p x \<longleftrightarrow> \<bar>p - x\<bar> \<le> \<bar>x\<bar> / 2 ^ 51"

text \<open>
  The correlation claims speak of rows.  Row \<open>i\<close> of a table has the cell \<open>cell_at h c i\<close>
  in column \<open>c\<close>; the rows that qualify for a question are those whose \<^verbatim>\<open>Question\<close> is
  that question and whose \<^verbatim>\<open>Stratification1\<close> is \<^verbatim>\<open>Overall\<close>; a row is complete
  when its \<^verbatim>\<open>DataValue\<close> and its \<^verbatim>\<open>per_gop\<close> are both numbers; the rows of a table
  picked by index make a table again.
\<close>

definition cell_at :: "'g frame \<Rightarrow> string \<Rightarrow> nat \<Rightarrow> 'g cell" where
  "cell_at h c i = (case map_of (cols h) c of None \<Rightarrow> NA | Some vs \<Rightarrow> vs ! i)"

definition qualifying_rows :: "'g frame \<Rightarrow> 'g cell \<Rightarrow> nat list" where
  "qualifying_rows h q =
     filter (\<lambda>i. cell_at h ''Question'' i = q \<and> cell_at h ''Stratification1'' i = Str ''Overall'')
       [0..<index_len h]"

definition value_at :: "'g frame \<Rightarrow> string \<Rightarrow> nat \<Rightarrow> fnum" where
  "value_at h c i = (case cell_at h c i of Num x \<Rightarrow> x | _ \<Rightarrow> Fin 0)"

definition is_number :: "'g cell \<Rightarrow> bool" where
  "is_number c = (case c of Num x \<Rightarrow> True | _ \<Rightarrow> False)"

definition complete_rows :: "'g frame \<Rightarrow> nat list \<Rightarrow> nat list" where
  "complete_rows h rows =
     filter (\<lambda>i. is_number (cell_at h ''DataValue'' i) \<and> is_number (cell_at h ''per_gop'' i)) rows"

text \<open>The coefficient of a list of rows, for a given algorithm on two arrays: the algorithm
  applied to the \<^verbatim>\<open>DataValue\<close>s and the \<^verbatim>\<open>per_gop\<close>s of the complete rows among them,
  and undefined (\<open>None\<close>, \<^verbatim>\<open>NaN\<close>) when no row is complete.\<close>

definition pairwise_coefficient ::
  "(fnum list \<Rightarrow> fnum list \<Rightarrow> real option) \<Rightarrow> 'g frame \<Rightarrow> nat list \<Rightarrow> real option" where
  "pairwise_coefficient algorithm h rows =
     (let used = complete_rows h rows
      in if used = [] then None
         else algorithm (map (value_at h ''DataValue'') used) (map (value_at h ''per_gop'') used))"

text \<open>
  Pearson's product-moment coefficient of two lists of numbers, in exact arithmetic: the
  covariance over the product of the standard deviations, undefined (\<open>None\<close>) when a
  deviation is zero, when the lists are empty or of different lengths, or when a value is
  infinite.  It is the number that \<^verbatim>\<open>numpy.corrcoef\<close> computes in doubles; the examples
  take it for the library's algorithm, on data where the two agree.
\<close>

definition mean :: "real list \<Rightarrow> real" where
  "mean xs = sum_list xs / real (length xs)"

definition real_values :: "fnum list \<Rightarrow> real list option" where
  "real_values xs =
     (if list_all (\<lambda>x. fin_of x \<noteq> None) xs
      then Some (map real_of_rat (List.map_filter fin_of xs)) else None)"

definition pearson :: "fnum list \<Rightarrow> fnum list \<Rightarrow> real option" where
  "pearson a b =
     (case (real_values a, real_values b) of
        (Some xs, Some ys) \<Rightarrow>
          (let sxy = sum_list (map (\<lambda>xy. (fst xy - mean xs) * (snd xy - mean ys)) (zip xs ys));
               sxx = sum_list (map (\<lambda>x. (x - mean xs) ^ 2) xs);
               syy = sum_list (map (\<lambda>y. (y - mean ys) ^ 2) ys)
           in if length xs \<noteq> length ys \<or> sxx = 0 \<or> syy = 0 then None
              else Some (sxy / (sqrt sxx * sqrt syy)))
      | _ \<Rightarrow> None)"

definition rows_of :: "'g frame \<Rightarrow> nat list \<Rightarrow> 'g frame" where
  "rows_of h rows =
     \<lparr>index_len = length rows, cols = map (\<lambda>cv. (fst cv, map (\<lambda>i. snd cv ! i) rows)) (cols h)\<rparr>"

text \<open>The rows the two selections of lines 105 and 106 keep, as indices into the table.\<close>

definition kept_rows :: "'g frame \<Rightarrow> 'g cell \<Rightarrow> nat list" where
  "kept_rows h q =
     filter (\<lambda>i. eq_scalar (cell_at h ''Stratification1'' i) (Str ''Overall''))
       (filter (\<lambda>i. eq_scalar (cell_at h ''Question'' i) q) [0..<index_len h])"

text \<open>A joined table the loop of line 104 runs on without error: the five columns it reads
  are there, and the two it correlates hold numbers or missing values only.\<close>

definition analysable :: "'g frame \<Rightarrow> bool" where
  "analysable h \<longleftrightarrow>
     wf_frame h \<and>
     list_all (\<lambda>c. c \<in> set (col_names h))
       [''Question'', ''Stratification1'', ''DataValue'', ''per_gop'', ''DataValueUnit''] \<and>
     list_all (\<lambda>cv. fst cv \<in> {''DataValue'', ''per_gop''} \<longrightarrow> list_all numeric (snd cv)) (cols h)"

text \<open>The key of an entry whose coefficient is a number, and the lists of entries none of
  whose coefficients is \<^verbatim>\<open>NaN\<close>.\<close>

definition finite_key :: "'g entry \<Rightarrow> real" where
  "finite_key e = (case coeff_val (correlation e) of Some x \<Rightarrow> x | None \<Rightarrow> 0)"

definition nan_free :: "'g entry list \<Rightarrow> bool" where
  "nan_free cs = list_all (\<lambda>e. coeff_val (correlation e) \<noteq> None) cs"

section \<open>Example data\<close>


text \<open>
  The same table with a third question between the two, whose \<^verbatim>\<open>DataValue\<close> is the same
  in both of its rows: its coefficient is \<^verbatim>\<open>NaN\<close>, the quotient of zero by zero.
\<close>

definition survey_with_constant :: "nat frame" where
  "survey_with_constant = \<lparr>index_len = 13, cols =
     [(''Question'', [Str ''Q1'', Str ''Q1'', Str ''Q1'', Str ''Q1'', Str ''Q1'', Str ''Q1'',
         Str ''Q3'', Str ''Q3'',
         Str ''Q2'', Str ''Q2'', Str ''Q2'', Str ''Q2'', Str ''Q2'']),
      (''Stratification1'', [Str ''Overall'', Str ''Overall'', Str ''Overall'', Str ''Male'',
         Str ''Overall'', Str ''Overall'',
         Str ''Overall'', Str ''Overall'',
         Str ''Overall'', Str ''Overall'', Str ''Overall'', Str ''Overall'', Str ''Overall'']),
      (''DataValue'', [Num (Fin 10), NA, Num (Fin 20), Num (Fin 99), Num (Fin 30), Num (Fin 40),
         Num (Fin 5), Num (Fin 5),
         Num (Fin 10), Num (Fin 20), Num (Fin 25), Num (Fin 30), Num (Fin 40)]),
      (''DataValueUnit'', [Str ''%'', Str ''%'', Str ''%'', Str ''%'', Str ''%'', Str ''%'',
         Str ''cases'', Str ''cases'',
         Str ''Number'', Str ''Number'', Str ''Number'', Str ''Number'', Str ''Number'']),
      (''per_gop'', [Num (Fin 30), Num (Fin 35), Num (Fin 40), Num (Fin 10), Num (Fin 50),
         Num (Fin 60),
         Num (Fin 30), Num (Fin 40),
         Num (Fin 60), Num (Fin 50), NA, Num (Fin 40), Num (Fin 30)])]\<rparr>"

text \<open>A library whose \<^verbatim>\<open>corrcoef\<close> is exact: on the data above the doubles of
  \<^verbatim>\<open>numpy\<close> are the exact coefficients, 1 and -1, and \<^verbatim>\<open>NaN\<close> where a variance is zero.\<close>

definition exact_lib :: lib where
  "exact_lib = \<lparr>parse_numeric = (\<lambda>s. None), corrcoef = pearson, merge_order = (\<lambda>lt n. [0..<n]),
     str_float = (\<lambda>x. if x = Some 1 then ''1.0'' else if x = Some (- 1) then ''-1.0'' else ''nan''),
     round3 = (\<lambda>x. x)\<rparr>"


section \<open>Properties of the cleaning\<close>

lemma prune_error_iff:
  "prune_columns h = Inl KeyError \<longleftrightarrow> \<not> set denylist \<subseteq> set (col_names h)"
  by (auto simp: prune_columns_def drop_columns_def useless_cols_def col_names_def)

lemma prune_cols:
  "prune_columns h = Inr h' \<Longrightarrow>
     cols h' = filter (\<lambda>cv. fst cv \<notin> set (useless_cols h)) (cols h) \<and> index_len h' = index_len h"
  by (auto simp: prune_columns_def drop_columns_def split: if_splits)

text \<open>
  C4, as the code has it.  After a successful cleaning, a column of the raw table is absent
  from the cleaned table when it has fewer than three distinct values or is on the fixed
  denylist, and every other column is retained with its values.  (Column names are distinct,
  as \<^verbatim>\<open>read_csv\<close> makes them.)
\<close>

theorem pruning_drops_low_information_and_denylisted:
  assumes "prune_columns h = Inr h'" and "distinct (col_names h)" and "(c, vs) \<in> set (cols h)"
  shows "(length (unique vs) < 3 \<or> c \<in> set denylist \<longrightarrow> c \<notin> set (col_names h')) \<and>
         (3 \<le> length (unique vs) \<and> c \<notin> set denylist \<longrightarrow> (c, vs) \<in> set (cols h'))"
proof -
  note pc = prune_cols[OF assms(1)]
  have uniq: "\<And>ws. (c, ws) \<in> set (cols h) \<Longrightarrow> ws = vs"
    using assms(2,3) unfolding col_names_def by (metis eq_key_imp_eq_value)
  have a: "length (unique vs) < 3 \<or> c \<in> set denylist \<Longrightarrow> c \<in> set (useless_cols h)"
    using assms(3) by (force simp: useless_cols_def)
  have b: "3 \<le> length (unique vs) \<and> c \<notin> set denylist \<Longrightarrow> c \<notin> set (useless_cols h)"
    using uniq by (auto simp: useless_cols_def)
  show ?thesis using a b pc assms(3) by (auto simp: col_names_def)
qed

text \<open>
  C4 as stated fails: in this table \<^verbatim>\<open>QuestionID\<close> has three distinct values and is
  dropped all the same, being on the denylist; so are the other denylisted columns, and
  \<^verbatim>\<open>YearStart\<close> for its two values.  Only \<^verbatim>\<open>Question\<close> is left.
\<close>

theorem pruning_counterexample:
  "prune_columns
     (\<lparr>index_len = 3, cols =
        [(''DataValueFootnoteSymbol'', [NA, NA, NA]),
         (''TopicID'', [Str ''a'', Str ''a'', Str ''a'']),
         (''QuestionID'', [Str ''Q1'', Str ''Q2'', Str ''Q3'']),
         (''DataValueTypeID'', [NA, NA, NA]),
         (''StratificationCategoryID1'', [NA, NA, NA]),
         (''StratificationID1'', [NA, NA, NA]),
         (''Question'', [Str ''x'', Str ''y'', Str ''z'']),
         (''YearStart'', [Str ''2016'', Str ''2016'', Str ''2015''])]\<rparr> :: nat frame)
   = Inr \<lparr>index_len = 3, cols = [(''Question'', [Str ''x'', Str ''y'', Str ''z''])]\<rparr>
   \<and> length (unique [Str ''Q1'', Str ''Q2'', Str ''Q3'' :: nat cell]) = 3"
  by (simp add: prune_columns_def drop_columns_def useless_cols_def denylist_def col_names_def)

theorem pruning_witness:
  "prune_columns
     (\<lparr>index_len = 3, cols =
        [(''DataValueFootnoteSymbol'', [NA, NA, NA]),
         (''TopicID'', [Str ''a'', Str ''a'', Str ''a'']),
         (''QuestionID'', [Str ''Q1'', Str ''Q2'', Str ''Q3'']),
         (''DataValueTypeID'', [NA, NA, NA]),
         (''StratificationCategoryID1'', [NA, NA, NA]),
         (''StratificationID1'', [NA, NA, NA]),
         (''Question'', [Str ''x'', Str ''y'', Str ''z'']),
         (''YearStart'', [Str ''2016'', Str ''2016'', Str ''2015''])]\<rparr> :: nat frame)
   = Inr \<lparr>index_len = 3, cols = [(''Question'', [Str ''x'', Str ''y'', Str ''z''])]\<rparr>
   \<and> length (unique [Str ''2016'', Str ''2016'', Str ''2015'' :: nat cell]) < 3
   \<and> ''YearStart'' \<notin> set (col_names
         (\<lparr>index_len = 3, cols = [(''Question'', [Str ''x'', Str ''y'', Str ''z''])]\<rparr> :: nat frame))
   \<and> 3 \<le> length (unique [Str ''x'', Str ''y'', Str ''z'' :: nat cell])
   \<and> ''Question'' \<notin> set denylist
   \<and> (''Question'', [Str ''x'', Str ''y'', Str ''z''])
        \<in> set (cols (\<lparr>index_len = 3, cols = [(''Question'', [Str ''x'', Str ''y'', Str ''z''])]\<rparr> :: nat frame))"
proof -
  let ?h = "\<lparr>index_len = 3, cols =
        [(''DataValueFootnoteSymbol'', [NA, NA, NA]),
         (''TopicID'', [Str ''a'', Str ''a'', Str ''a'']),
         (''QuestionID'', [Str ''Q1'', Str ''Q2'', Str ''Q3'']),
         (''DataValueTypeID'', [NA, NA, NA]),
         (''StratificationCategoryID1'', [NA, NA, NA]),
         (''StratificationID1'', [NA, NA, NA]),
         (''Question'', [Str ''x'', Str ''y'', Str ''z'']),
         (''YearStart'', [Str ''2016'', Str ''2016'', Str ''2015''])]\<rparr> :: nat frame"
  let ?h' = "\<lparr>index_len = 3, cols = [(''Question'', [Str ''x'', Str ''y'', Str ''z''])]\<rparr> :: nat frame"
  have p: "prune_columns ?h = Inr ?h'"
    by (simp add: prune_columns_def drop_columns_def useless_cols_def denylist_def col_names_def)
  have d: "distinct (col_names ?h)" by (simp add: col_names_def)
  have m1: "(''YearStart'', [Str ''2016'', Str ''2016'', Str ''2015'']) \<in> set (cols ?h)" by simp
  have m2: "(''Question'', [Str ''x'', Str ''y'', Str ''z'']) \<in> set (cols ?h)" by simp
  have n: "''Question'' \<notin> set denylist" by (simp add: denylist_def)
  show ?thesis
    using pruning_drops_low_information_and_denylisted[OF p d m1]
      pruning_drops_low_information_and_denylisted[OF p d m2] p n
    by simp
qed

text \<open>
  C10.  The cleaning succeeds exactly when all six denylisted columns are present.  When one
  is absent the drop raises \<^verbatim>\<open>KeyError\<close> and the run ends there, with no report written;
  when all are present they are all gone from the cleaned table, whatever their values.
\<close>

theorem denylist_columns_required:
  "(\<not> set denylist \<subseteq> set (col_names h) \<longrightarrow>
      prune_columns h = Inl KeyError \<and>
      run L h ss vd = \<lparr>report_file = None, shown = Inl KeyError\<rparr>) \<and>
   (set denylist \<subseteq> set (col_names h) \<longrightarrow>
      (\<exists>h'. prune_columns h = Inr h' \<and> set denylist \<inter> set (col_names h') = {}))"
proof (intro conjI impI)
  assume "\<not> set denylist \<subseteq> set (col_names h)"
  then show p: "prune_columns h = Inl KeyError" by (simp add: prune_error_iff)
  then show "run L h ss vd = \<lparr>report_file = None, shown = Inl KeyError\<rparr>"
    by (simp add: run_def)
next
  assume "set denylist \<subseteq> set (col_names h)"
  then have "set (useless_cols h) \<subseteq> set (col_names h)"
    by (auto simp: useless_cols_def col_names_def)
  then obtain h' where h': "prune_columns h = Inr h'"
    by (auto simp: prune_columns_def drop_columns_def)
  have "set denylist \<inter> set (col_names h') = {}"
    using prune_cols[OF h'] by (auto simp: col_names_def useless_cols_def)
  with h' show "\<exists>h'. prune_columns h = Inr h' \<and> set denylist \<inter> set (col_names h') = {}"
    by blast
qed

theorem denylist_columns_required_witness:
  "\<not> set denylist \<subseteq> set (col_names
       (\<lparr>index_len = 2, cols =
          [(''DataValueFootnoteSymbol'', [NA, NA]), (''QuestionID'', [Str ''Q1'', Str ''Q2'']),
           (''DataValueTypeID'', [NA, NA]), (''StratificationCategoryID1'', [NA, NA]),
           (''StratificationID1'', [NA, NA]), (''Question'', [Str ''x'', Str ''y''])]\<rparr> :: nat frame))
   \<and> prune_columns
       (\<lparr>index_len = 2, cols =
          [(''DataValueFootnoteSymbol'', [NA, NA]), (''QuestionID'', [Str ''Q1'', Str ''Q2'']),
           (''DataValueTypeID'', [NA, NA]), (''StratificationCategoryID1'', [NA, NA]),
           (''StratificationID1'', [NA, NA]), (''Question'', [Str ''x'', Str ''y''])]\<rparr> :: nat frame)
       = Inl KeyError
   \<and> run \<lparr>parse_numeric = (\<lambda>s. None), corrcoef = pearson, merge_order = (\<lambda>lt n. [0..<n]), str_float = (\<lambda>x. ''nan''), round3 = (\<lambda>x. x)\<rparr>
       (\<lparr>index_len = 2, cols =
          [(''DataValueFootnoteSymbol'', [NA, NA]), (''QuestionID'', [Str ''Q1'', Str ''Q2'']),
           (''DataValueTypeID'', [NA, NA]), (''StratificationCategoryID1'', [NA, NA]),
           (''StratificationID1'', [NA, NA]), (''Question'', [Str ''x'', Str ''y''])]\<rparr> :: nat frame)
       [] []
       = \<lparr>report_file = None, shown = Inl KeyError\<rparr>
   \<and> set denylist \<subseteq> set (col_names
       (\<lparr>index_len = 1, cols =
          [(''DataValueFootnoteSymbol'', [NA]), (''TopicID'', [Str ''a'']),
           (''QuestionID'', [Str ''Q1'']), (''DataValueTypeID'', [NA]),
           (''StratificationCategoryID1'', [NA]), (''StratificationID1'', [NA])]\<rparr> :: nat frame))
   \<and> (\<exists>h'. prune_columns
       (\<lparr>index_len = 1, cols =
          [(''DataValueFootnoteSymbol'', [NA]), (''TopicID'', [Str ''a'']),
           (''QuestionID'', [Str ''Q1'']), (''DataValueTypeID'', [NA]),
           (''StratificationCategoryID1'', [NA]), (''StratificationID1'', [NA])]\<rparr> :: nat frame)
       = Inr h' \<and> set denylist \<inter> set (col_names h') = {})"
proof -
  let ?a = "\<lparr>index_len = 2, cols =
          [(''DataValueFootnoteSymbol'', [NA, NA]), (''QuestionID'', [Str ''Q1'', Str ''Q2'']),
           (''DataValueTypeID'', [NA, NA]), (''StratificationCategoryID1'', [NA, NA]),
           (''StratificationID1'', [NA, NA]), (''Question'', [Str ''x'', Str ''y''])]\<rparr> :: nat frame"
  let ?b = "\<lparr>index_len = 1, cols =
          [(''DataValueFootnoteSymbol'', [NA]), (''TopicID'', [Str ''a'']),
           (''QuestionID'', [Str ''Q1'']), (''DataValueTypeID'', [NA]),
           (''StratificationCategoryID1'', [NA]), (''StratificationID1'', [NA])]\<rparr> :: nat frame"
  have a: "\<not> set denylist \<subseteq> set (col_names ?a)"
    by (simp add: denylist_def col_names_def)
  have b: "set denylist \<subseteq> set (col_names ?b)"
    by (simp add: denylist_def col_names_def)
  show ?thesis
    using denylist_columns_required[of ?a] denylist_columns_required[of ?b] a b
    by blast
qed


section \<open>Properties of the double-precision arithmetic\<close>

text \<open>The exponent is the right one, a rounding moves a number by at most half a unit in
  the last place, whole numbers below \<open>2\<^sup>5\<^sup>3\<close> are doubles, and the percentage of line 49
  is within two roundings of the exact one.\<close>

lemma bitlen_powi:
  assumes "0 < p"
  shows "(2::rat) powi (bitlen p - 1) \<le> of_int p \<and> of_int p < (2::rat) powi (bitlen p)"
proof -
  have b: "1 \<le> bitlen p" using assms by (auto simp: bitlen_alt_def)
  have "2 ^ nat (bitlen p - 1) \<le> p" "p < 2 ^ nat (bitlen p)"
    using bitlen_bounds[OF assms] by auto
  then have "(of_int (2 ^ nat (bitlen p - 1)) :: rat) \<le> of_int p" "(of_int p :: rat) < of_int (2 ^ nat (bitlen p))"
    by (simp_all only: of_int_le_iff of_int_less_iff)
  then show ?thesis using b by (simp add: power_int_nonneg_exp)
qed

lemma ilog2_bounds:
  assumes "0 < x"
  shows "2 powi (ilog2 x) \<le> x \<and> x < 2 powi (ilog2 x + 1)"
proof -
  obtain p q where pq: "quotient_of x = (p, q)" by (cases "quotient_of x")
  have q0: "0 < q" using quotient_of_denom_pos[OF pq] .
  have x: "x = of_int p / of_int q" using quotient_of_div[OF pq] .
  have p0: "0 < p" using assms q0 x by (simp add: zero_less_divide_iff)
  define bp bq where "bp = bitlen p" and "bq = bitlen q"
  have P: "(2::rat) powi (bp - 1) \<le> of_int p" "of_int p < (2::rat) powi bp"
    using bitlen_powi[OF p0] by (simp_all add: bp_def)
  have Q: "(2::rat) powi (bq - 1) \<le> of_int q" "of_int q < (2::rat) powi bq"
    using bitlen_powi[OF q0] by (simp_all add: bq_def)
  have qr: "(0::rat) < of_int q" using q0 by simp
  have "x < 2 powi bp / of_int q" unfolding x using P(2) qr by (simp add: divide_strict_right_mono)
  also have "\<dots> \<le> 2 powi bp / 2 powi (bq - 1)"
    using Q(1) qr by (intro divide_left_mono) (simp_all)
  also have "\<dots> = 2 powi (bp - (bq - 1))" by (subst power_int_diff) simp_all
  finally have up: "x < 2 powi (bp - bq + 1)" by (simp add: algebra_simps)
  have "(2::rat) powi (bp - 1 - bq) = 2 powi (bp - 1) / 2 powi bq"
    by (subst power_int_diff) simp_all
  then have "(2::rat) powi (bp - bq - 1) = 2 powi (bp - 1) / 2 powi bq"
    by (simp add: algebra_simps)
  also have "\<dots> \<le> of_int p / 2 powi bq" using P(1) by (simp add: divide_right_mono)
  also have "\<dots> \<le> of_int p / of_int q"
    using Q(2) qr p0 by (intro divide_left_mono) simp_all
  finally have lo: "2 powi (bp - bq - 1) \<le> x" unfolding x .
  have d: "ilog2 x = (if 2 powi (bp - bq) \<le> x then bp - bq else bp - bq - 1)"
    by (simp add: ilog2_def pq bp_def bq_def Let_def)
  show ?thesis
  proof (cases "2 powi (bp - bq) \<le> x")
    case True
    then show ?thesis using up d by simp
  next
    case False
    then show ?thesis using lo d by simp
  qed
qed

lemma round_half_even_error: "\<bar>of_int (round_half_even r) - r\<bar> \<le> 1 / 2"
proof -
  have f: "of_int \<lfloor>r\<rfloor> \<le> r" "r < of_int \<lfloor>r\<rfloor> + 1" by linarith+
  show ?thesis
    unfolding round_half_even_def Let_def using f by (simp add: abs_le_iff)
qed

lemma round_half_even_of_int [simp]: "round_half_even (of_int k) = k"
  by (simp add: round_half_even_def)

lemma powi_less_exp: "(2::rat) powi m < 2 powi n \<Longrightarrow> m < n"
  using power_int_increasing[of n m "2::rat"] by (cases "m < n") simp_all

lemma ulp_pos: "0 < ulp x"
  by (simp add: ulp_def)

lemma nearest64_error: "\<bar>nearest64 x - x\<bar> \<le> ulp x / 2"
proof (cases "x = 0")
  case True
  then show ?thesis using ulp_pos[of x] by (simp add: nearest64_def)
next
  case False
  define u where "u = ulp x"
  define m where "m = round_half_even (\<bar>x\<bar> / u)"
  have u: "0 < u" by (simp add: u_def ulp_pos)
  have "nearest64 x - x = sgn x * (of_int m * u - \<bar>x\<bar>)"
    using False by (simp add: nearest64_def m_def u_def algebra_simps flip: abs_sgn)
       (metis mult.commute mult_sgn_abs)
  then have "\<bar>nearest64 x - x\<bar> = \<bar>of_int m * u - \<bar>x\<bar>\<bar>"
    using False by (simp add: abs_mult abs_sgn_eq)
  also have "of_int m * u - \<bar>x\<bar> = (of_int m - \<bar>x\<bar> / u) * u"
    using u by (simp add: algebra_simps)
  also have "\<bar>\<dots>\<bar> = \<bar>of_int m - \<bar>x\<bar> / u\<bar> * u"
    using u by (simp add: abs_mult)
  also have "\<dots> \<le> (1 / 2) * u"
    using round_half_even_error[of "\<bar>x\<bar> / u"] u unfolding m_def
    by (intro mult_right_mono) simp_all
  finally show ?thesis by (simp add: u_def)
qed

lemma ilog2_normal:
  assumes "2 powi (- 1022) \<le> \<bar>x\<bar>"
  shows "- 1022 \<le> ilog2 \<bar>x\<bar>"
proof -
  have "0 < \<bar>x\<bar>" using assms zero_less_power_int[of "2::rat" "- 1022"] by linarith
  then have "\<bar>x\<bar> < 2 powi (ilog2 \<bar>x\<bar> + 1)" using ilog2_bounds by blast
  with assms have "(2::rat) powi (- 1022) < 2 powi (ilog2 \<bar>x\<bar> + 1)" by linarith
  then have "- 1022 < ilog2 \<bar>x\<bar> + 1" by (rule powi_less_exp)
  then show ?thesis by simp
qed

lemma ulp_normal:
  assumes "2 powi (- 1022) \<le> \<bar>x\<bar>"
  shows "ulp x \<le> \<bar>x\<bar> / 2 ^ 52"
proof -
  have "0 < \<bar>x\<bar>" using assms zero_less_power_int[of "2::rat" "- 1022"] by linarith
  then have lo: "2 powi (ilog2 \<bar>x\<bar>) \<le> \<bar>x\<bar>" using ilog2_bounds by blast
  have "ulp x = 2 powi (ilog2 \<bar>x\<bar> - 52)"
    using ilog2_normal[OF assms] by (simp add: ulp_def max_def)
  also have "\<dots> = 2 powi (ilog2 \<bar>x\<bar>) / 2 ^ 52"
    by (subst power_int_diff) simp_all
  also have "\<dots> \<le> \<bar>x\<bar> / 2 ^ 52" using lo by (simp add: divide_right_mono)
  finally show ?thesis .
qed

lemma nearest64_relative_error:
  assumes "2 powi (- 1022) \<le> \<bar>x\<bar>"
  shows "\<bar>nearest64 x - x\<bar> \<le> \<bar>x\<bar> / 2 ^ 53"
proof -
  have "\<bar>nearest64 x - x\<bar> \<le> ulp x / 2" by (rule nearest64_error)
  also have "\<dots> \<le> (\<bar>x\<bar> / 2 ^ 52) / 2" using ulp_normal[OF assms] by simp
  also have "\<dots> = \<bar>x\<bar> / 2 ^ 53" by simp
  finally show ?thesis .
qed

lemma nearest64_of_int:
  assumes "\<bar>n\<bar> < 2 ^ 53"
  shows "nearest64 (of_int n) = of_int n"
proof (cases "n = 0")
  case True
  then show ?thesis by (simp add: nearest64_def)
next
  case False
  define x :: rat where "x = of_int n"
  define e where "e = ilog2 \<bar>x\<bar>"
  have x0: "0 < \<bar>x\<bar>" using False by (simp add: x_def)
  have "1 \<le> \<bar>n\<bar>" using False by simp
  then have "(of_int 1 :: rat) \<le> of_int \<bar>n\<bar>" by (simp only: of_int_le_iff)
  then have one: "1 \<le> \<bar>x\<bar>" by (simp add: x_def)
  have "2 powi e \<le> \<bar>x\<bar>" "\<bar>x\<bar> < 2 powi (e + 1)"
    using ilog2_bounds[OF x0] by (simp_all add: e_def)
  moreover have "(of_int \<bar>n\<bar> :: rat) < of_int (2 ^ 53)" using assms by (simp only: of_int_less_iff)
  then have "\<bar>x\<bar> < 2 powi 53" by (simp add: x_def)
  ultimately have lt: "(2::rat) powi e < 2 powi 53" "(2::rat) powi 0 < 2 powi (e + 1)"
    using one by simp_all
  have "e < 53" "0 < e + 1" using lt[THEN powi_less_exp] by simp_all
  then have e: "e \<le> 52" "0 \<le> e" by simp_all
  have u: "ulp x = 1 / 2 ^ nat (52 - e)"
    using e by (simp add: ulp_def e_def[symmetric] max_def power_int_minus_divide[of _ "52 - e", simplified] power_int_nonneg_exp)
  have "\<bar>x\<bar> / ulp x = of_int (\<bar>n\<bar> * 2 ^ nat (52 - e))"
    unfolding u by (simp add: x_def)
  then have "round_half_even (\<bar>x\<bar> / ulp x) = \<bar>n\<bar> * 2 ^ nat (52 - e)"
    by (simp only: round_half_even_of_int)
  moreover have "x \<noteq> 0" using False by (simp add: x_def)
  ultimately have "nearest64 x = sgn x * \<bar>x\<bar>"
    unfolding nearest64_def u by (simp add: x_def)
  then show ?thesis by (simp add: x_def mult_sgn_abs)
qed

lemma float_of_int64_exact: "\<bar>sint w\<bar> < 2 ^ 53 \<Longrightarrow> float_of_int64 w = of_int (sint w)"
  unfolding float_of_int64_def by (rule nearest64_of_int)

lemma round64_Fin: "\<bar>nearest64 x\<bar> < 2 ^ 1024 \<Longrightarrow> round64 x = Fin (nearest64 x)"
  by (simp add: round64_def)

lemma percentage_of_rationals:
  fixes a b :: int
  assumes b: "b \<noteq> 0" and a: "\<bar>a\<bar> < 2 ^ 53" and b53: "\<bar>b\<bar> < 2 ^ 53"
  defines "x \<equiv> (of_int a / of_int b :: rat)"
  shows "\<exists>p. times100 (Some (round64 x)) = Some (Fin p) \<and> \<bar>p - 100 * x\<bar> \<le> \<bar>100 * x\<bar> / 2 ^ 51"
proof (cases "a = 0")
  case True
  then have "x = 0" by (simp add: x_def)
  then show ?thesis by (simp add: round64_def nearest64_def)
next
  case False
  have "1 \<le> \<bar>a\<bar>" "1 \<le> \<bar>b\<bar>" using False b by simp_all
  then have ra: "(1::rat) \<le> \<bar>of_int a\<bar>" and rb: "(1::rat) \<le> \<bar>of_int b\<bar>"
    by (simp_all flip: of_int_abs)
  have "(of_int \<bar>a\<bar> :: rat) < of_int (2 ^ 53)" "(of_int \<bar>b\<bar> :: rat) < of_int (2 ^ 53)"
    using a b53 by (simp_all only: of_int_less_iff)
  then have ua: "\<bar>of_int a :: rat\<bar> < 2 ^ 53" and ub: "\<bar>of_int b :: rat\<bar> < 2 ^ 53" by simp_all
  have ax: "\<bar>x\<bar> = \<bar>of_int a\<bar> / \<bar>of_int b\<bar>" by (simp add: x_def)
  have "\<bar>x\<bar> \<le> \<bar>of_int a\<bar> / 1" unfolding ax using rb by (intro divide_left_mono) simp_all
  then have xu: "\<bar>x\<bar> < 2 ^ 53" using ua by simp
  have "1 / 2 ^ 53 \<le> 1 / \<bar>of_int b :: rat\<bar>" using ub rb by (intro divide_left_mono) simp_all
  also have "\<dots> \<le> \<bar>of_int a\<bar> / \<bar>of_int b\<bar>" using ra rb by (intro divide_right_mono) simp_all
  finally have xl: "1 / 2 ^ 53 \<le> \<bar>x\<bar>" by (simp add: ax)
  have n1: "2 powi (- 1022) \<le> \<bar>x\<bar>" using xl by simp
  define q where "q = nearest64 x"
  have eq: "\<bar>q - x\<bar> \<le> \<bar>x\<bar> / 2 ^ 53" unfolding q_def by (rule nearest64_relative_error[OF n1])
  have qu: "\<bar>q\<bar> \<le> \<bar>x\<bar> + \<bar>x\<bar> / 2 ^ 53" and ql: "\<bar>x\<bar> - \<bar>x\<bar> / 2 ^ 53 \<le> \<bar>q\<bar>"
    using eq by linarith+
  have "\<bar>q\<bar> < 2 ^ 1024" using qu xu by simp
  then have r1: "round64 x = Fin q" unfolding q_def by (rule round64_Fin)
  define y where "y = q * 100"
  have ay: "\<bar>y\<bar> = 100 * \<bar>q\<bar>" by (simp add: y_def abs_mult)
  have n2: "2 powi (- 1022) \<le> \<bar>y\<bar>" unfolding ay using ql xl by simp
  define p where "p = nearest64 y"
  have ep: "\<bar>p - y\<bar> \<le> \<bar>y\<bar> / 2 ^ 53" unfolding p_def by (rule nearest64_relative_error[OF n2])
  have "\<bar>p\<bar> \<le> \<bar>y\<bar> + \<bar>y\<bar> / 2 ^ 53" using ep by linarith
  then have "\<bar>p\<bar> < 2 ^ 1024" unfolding ay using qu xu by simp
  then have r2: "round64 y = Fin p" unfolding p_def by (rule round64_Fin)
  have "p - 100 * x = (p - y) + 100 * (q - x)" by (simp add: y_def)
  then have "\<bar>p - 100 * x\<bar> \<le> \<bar>p - y\<bar> + \<bar>100 * (q - x)\<bar>" by (simp only: abs_triangle_ineq)
  moreover have "\<bar>100 * (q - x)\<bar> = 100 * \<bar>q - x\<bar>" using abs_mult[of "100::rat" "q - x"] by simp
  ultimately have "\<bar>p - 100 * x\<bar> \<le> \<bar>p - y\<bar> + 100 * \<bar>q - x\<bar>" by (simp only:)
  also have "\<dots> \<le> \<bar>y\<bar> / 2 ^ 53 + 100 * (\<bar>x\<bar> / 2 ^ 53)" using ep eq by (intro add_mono mult_left_mono) simp_all
  also have "\<dots> \<le> 100 * \<bar>x\<bar> / 2 ^ 51" unfolding ay using qu by simp
  finally have "\<bar>p - 100 * x\<bar> \<le> \<bar>100 * x\<bar> / 2 ^ 51" by (simp add: abs_mult)
  then show ?thesis using r1 r2 by (simp add: y_def)
qed

lemma percentage_error:
  assumes "sint t \<noteq> 0" "\<bar>sint v\<bar> < 2 ^ 53" "\<bar>sint t\<bar> < 2 ^ 53"
  shows "\<exists>p. times100 (fdiv v t) = Some (Fin p) \<and>
           \<bar>p - 100 * of_int (sint v) / of_int (sint t)\<bar> \<le> \<bar>100 * of_int (sint v) / of_int (sint t)\<bar> / 2 ^ 51"
proof -
  have "(of_int (sint t) :: rat) \<noteq> 0" using assms(1) by (simp only: of_int_eq_0_iff) simp
  then have "fdiv v t = Some (round64 (of_int (sint v) / of_int (sint t)))"
    unfolding fdiv_def Let_def float_of_int64_exact[OF assms(2)] float_of_int64_exact[OF assms(3)]
    by (simp only: if_True if_False not_False_eq_True simp_thms)
  then show ?thesis using percentage_of_rationals[OF assms] by (simp only: times_divide_eq_right)
qed

text \<open>Sums of \<^verbatim>\<open>int64\<close> wrap around, and are the sums of whole numbers when those
  fit.\<close>

lemma signed_take_bit_add_right:
  "signed_take_bit n (a + signed_take_bit n b) = signed_take_bit n (a + b)" for a b :: int
proof -
  have "signed_take_bit n (a + signed_take_bit n b)
      = signed_take_bit n (signed_take_bit n a + signed_take_bit n (signed_take_bit n b))"
    by (simp only: signed_take_bit_add)
  also have "\<dots> = signed_take_bit n (signed_take_bit n a + signed_take_bit n b)"
    by simp
  also have "\<dots> = signed_take_bit n (a + b)" by (simp only: signed_take_bit_add)
  finally show ?thesis .
qed

lemma sint_sum_list: "sint (sum_list ws) = signed_take_bit 63 (sum_list (map sint ws))" for ws :: "64 word list"
  by (induction ws) (simp_all add: sint_word_ariths signed_take_bit_add_right)

lemma sint_sum_list_exact:
  fixes ws :: "64 word list"
  assumes "- (2 ^ 63) \<le> sum_list (map sint ws)" "sum_list (map sint ws) < 2 ^ 63"
  shows "sint (sum_list ws) = sum_list (map sint ws)"
  unfolding sint_sum_list using assms by (simp add: signed_take_bit_int_eq_self)


section \<open>Properties of the election aggregate\<close>

lemma set_map_filter_conv: "set (List.map_filter f xs) = {y. \<exists>x\<in>set xs. f x = Some y}"
  by (induction xs) (auto simp: map_filter_simps split: option.splits)

lemma set_group_keys: "set (group_keys vd) = {k. Some k \<in> state_abbr ` set vd}"
  by (force simp: group_keys_def set_map_filter_conv image_iff)

lemma distinct_group_keys: "distinct (group_keys vd)"
  by (simp add: group_keys_def)

lemma filter_map_key:
  assumes "distinct ks" and "k \<in> set ks" and "\<And>j. key (f j) = j"
  shows "filter (\<lambda>g. key g = k) (map f ks) = [f k]"
  using assms(1,2)
proof (induction ks)
  case Nil then show ?case by simp
next
  case (Cons a ks)
  show ?case
  proof (cases "a = k")
    case True
    then have "k \<notin> set ks" using Cons.prems by simp
    then have "filter (\<lambda>g. key g = k) (map f ks) = []"
      by (auto simp: filter_empty_conv assms(3))
    then show ?thesis using True by (simp add: assms(3))
  next
    case False
    then show ?thesis using Cons by (simp add: assms(3))
  qed
qed

lemma grouped_alt: "grouped vd = map (\<lambda>k. recalculate (sum_group vd k)) (group_keys vd)"
  by (simp add: grouped_def groupby_sum_def)

lemma state_abbr_recalculate: "state_abbr (recalculate (sum_group vd j)) = j"
  by (simp add: recalculate_def sum_group_def)

lemma fold_upd_map_of:
  "fold (\<lambda>g m. m(kf g \<mapsto> vf g)) gs m0 = m0 ++ map_of (rev (map (\<lambda>g. (kf g, vf g)) gs))"
proof (induction gs arbitrary: m0)
  case Nil
  then show ?case by simp
next
  case (Cons a gs)
  have "fold (\<lambda>g m. m(kf g \<mapsto> vf g)) (a # gs) m0
          = m0(kf a \<mapsto> vf a) ++ map_of (rev (map (\<lambda>g. (kf g, vf g)) gs))"
    using Cons.IH[of "m0(kf a \<mapsto> vf a)"] by (simp only: fold_simps)
  also have "\<dots> = m0 ++ map_of (rev (map (\<lambda>g. (kf g, vf g)) (a # gs)))"
    by (simp add: map_add_assoc[symmetric])
  finally show ?case .
qed

lemma voteDict_map_of:
  "voteDict gs = map_of (rev (map (\<lambda>g. (state_abbr g, (per_dem g, per_gop g))) gs))"
  unfolding voteDict_def by (simp add: fold_upd_map_of)

lemma grouped_row:
  assumes "Some k \<in> state_abbr ` set vd"
  shows "filter (\<lambda>g. state_abbr g = k) (grouped vd) = [recalculate (sum_group vd k)]"
    and "voteDict (grouped vd) k
           = Some (per_dem (recalculate (sum_group vd k)), per_gop (recalculate (sum_group vd k)))"
proof -
  have k: "k \<in> set (group_keys vd)" using assms by (simp add: set_group_keys)
  show "filter (\<lambda>g. state_abbr g = k) (grouped vd) = [recalculate (sum_group vd k)]"
    unfolding grouped_alt
    by (rule filter_map_key[where key = state_abbr and f = "\<lambda>k. recalculate (sum_group vd k)",
          OF distinct_group_keys k state_abbr_recalculate])
  show "voteDict (grouped vd) k
           = Some (per_dem (recalculate (sum_group vd k)), per_gop (recalculate (sum_group vd k)))"
    unfolding voteDict_map_of grouped_alt
    by (rule map_of_is_SomeI)
       (use k in \<open>auto simp: comp_def distinct_map inj_on_def state_abbr_recalculate
          distinct_group_keys\<close>)
qed

lemma voteDict_None:
  "Some k \<notin> state_abbr ` set vd \<Longrightarrow> voteDict (grouped vd) k = None"
  unfolding voteDict_map_of grouped_alt
  by (auto simp: map_of_eq_None_iff image_iff state_abbr_recalculate set_group_keys comp_def)

lemma grouped_evaluation:
  "grouped vd = map (\<lambda>k.
      \<lparr>state_abbr = k,
       votes_dem = sum_list (map votes_dem (filter (\<lambda>r. state_abbr r = Some k) vd)),
       votes_gop = sum_list (map votes_gop (filter (\<lambda>r. state_abbr r = Some k) vd)),
       total_votes = sum_list (map total_votes (filter (\<lambda>r. state_abbr r = Some k) vd)),
       per_dem = times100 (fdiv (sum_list (map votes_dem (filter (\<lambda>r. state_abbr r = Some k) vd)))
                   (sum_list (map total_votes (filter (\<lambda>r. state_abbr r = Some k) vd)))),
       per_gop = times100 (fdiv (sum_list (map votes_gop (filter (\<lambda>r. state_abbr r = Some k) vd)))
                   (sum_list (map total_votes (filter (\<lambda>r. state_abbr r = Some k) vd))))\<rparr>)
     (group_keys vd)"
  by (simp add: grouped_alt recalculate_def sum_group_def group_rows_def)

text \<open>Doubles the examples below need: what \<^verbatim>\<open>(votes / total) * 100\<close> is for some counts.\<close>

lemma percentage_evaluation:
  assumes "nearest64 (of_int (sint v)) = x" and "nearest64 (of_int (sint t)) = y" and "y \<noteq> 0"
    and "nearest64 (x / y) = q" and "\<bar>q\<bar> < 2 ^ 1024"
    and "nearest64 (q * 100) = p" and "\<bar>p\<bar> < 2 ^ 1024"
  shows "times100 (fdiv v t) = Some (Fin p)"
proof -
  have "fdiv v t = Some (round64 (x / y))"
    using assms(1,2,3) by (simp add: fdiv_def float_of_int64_def Let_def)
  also have "round64 (x / y) = Fin q" using assms(4,5) round64_Fin[of "x / y"] by simp
  finally have "times100 (fdiv v t) = Some (round64 (q * 100))" by simp
  also have "round64 (q * 100) = Fin p" using assms(6,7) round64_Fin[of "q * 100"] by simp
  finally show ?thesis .
qed

lemma percentage_7_of_100: "times100 (fdiv 7 100) = Some (Fin (7 + 1 / 2 ^ 50))"
proof (rule percentage_evaluation)
  show "nearest64 (rat_of_int (sint (7 :: 64 word))) = 7" by code_simp
  show "nearest64 (rat_of_int (sint (100 :: 64 word))) = 100" by code_simp
  show "(100 :: rat) \<noteq> 0" by simp
  show "nearest64 (7 / 100) = 1261007895663739 / 2 ^ 54" by code_simp
  show "\<bar>1261007895663739 / 2 ^ 54 :: rat\<bar> < 2 ^ 1024" by simp
  show "nearest64 (1261007895663739 / 2 ^ 54 * 100) = 7 + 1 / 2 ^ 50" by code_simp
  show "\<bar>7 + 1 / 2 ^ 50 :: rat\<bar> < 2 ^ 1024" by simp
qed

lemma percentage_29_of_100: "times100 (fdiv 29 100) = Some (Fin (29 - 1 / 2 ^ 48))"
proof (rule percentage_evaluation)
  show "nearest64 (rat_of_int (sint (29 :: 64 word))) = 29" by code_simp
  show "nearest64 (rat_of_int (sint (100 :: 64 word))) = 100" by code_simp
  show "(100 :: rat) \<noteq> 0" by simp
  show "nearest64 (29 / 100) = 5224175567749775 / 2 ^ 54" by code_simp
  show "\<bar>5224175567749775 / 2 ^ 54 :: rat\<bar> < 2 ^ 1024" by simp
  show "nearest64 (5224175567749775 / 2 ^ 54 * 100) = 29 - 1 / 2 ^ 48" by code_simp
  show "\<bar>29 - 1 / 2 ^ 48 :: rat\<bar> < 2 ^ 1024" by simp
qed

lemma percentage_910_of_1100: "times100 (fdiv 910 1100) = Some (Fin (5821414291061295 / 2 ^ 46))"
proof (rule percentage_evaluation)
  show "nearest64 (rat_of_int (sint (910 :: 64 word))) = 910" by code_simp
  show "nearest64 (rat_of_int (sint (1100 :: 64 word))) = 1100" by code_simp
  show "(1100 :: rat) \<noteq> 0" by simp
  show "nearest64 (910 / 1100) = 7451410292558457 / 2 ^ 53" by code_simp
  show "\<bar>7451410292558457 / 2 ^ 53 :: rat\<bar> < 2 ^ 1024" by simp
  show "nearest64 (7451410292558457 / 2 ^ 53 * 100) = 5821414291061295 / 2 ^ 46" by code_simp
  show "\<bar>5821414291061295 / 2 ^ 46 :: rat\<bar> < 2 ^ 1024" by simp
qed

lemma percentage_190_of_1100: "times100 (fdiv 190 1100) = Some (Fin (2430920253410211 / 2 ^ 47))"
proof (rule percentage_evaluation)
  show "nearest64 (rat_of_int (sint (190 :: 64 word))) = 190" by code_simp
  show "nearest64 (rat_of_int (sint (1100 :: 64 word))) = 1100" by code_simp
  show "(1100 :: rat) \<noteq> 0" by simp
  show "nearest64 (190 / 1100) = 1555788962182535 / 2 ^ 53" by code_simp
  show "\<bar>1555788962182535 / 2 ^ 53 :: rat\<bar> < 2 ^ 1024" by simp
  show "nearest64 (1555788962182535 / 2 ^ 53 * 100) = 2430920253410211 / 2 ^ 47" by code_simp
  show "\<bar>2430920253410211 / 2 ^ 47 :: rat\<bar> < 2 ^ 1024" by simp
qed

lemma percentage_30_of_100: "times100 (fdiv 30 100) = Some (Fin 30)"
proof (rule percentage_evaluation)
  show "nearest64 (rat_of_int (sint (30 :: 64 word))) = 30" by code_simp
  show "nearest64 (rat_of_int (sint (100 :: 64 word))) = 100" by code_simp
  show "(100 :: rat) \<noteq> 0" by simp
  show "nearest64 (30 / 100) = 5404319552844595 / 2 ^ 54" by code_simp
  show "\<bar>5404319552844595 / 2 ^ 54 :: rat\<bar> < 2 ^ 1024" by simp
  show "nearest64 (5404319552844595 / 2 ^ 54 * 100) = 30" by code_simp
  show "\<bar>30 :: rat\<bar> < 2 ^ 1024" by simp
qed

lemma percentage_70_of_100: "times100 (fdiv 70 100) = Some (Fin 70)"
proof (rule percentage_evaluation)
  show "nearest64 (rat_of_int (sint (70 :: 64 word))) = 70" by code_simp
  show "nearest64 (rat_of_int (sint (100 :: 64 word))) = 100" by code_simp
  show "(100 :: rat) \<noteq> 0" by simp
  show "nearest64 (70 / 100) = 3152519739159347 / 2 ^ 52" by code_simp
  show "\<bar>3152519739159347 / 2 ^ 52 :: rat\<bar> < 2 ^ 1024" by simp
  show "nearest64 (3152519739159347 / 2 ^ 52 * 100) = 70" by code_simp
  show "\<bar>70 :: rat\<bar> < 2 ^ 1024" by simp
qed

lemma percentage_60_of_100: "times100 (fdiv 60 100) = Some (Fin 60)"
proof (rule percentage_evaluation)
  show "nearest64 (rat_of_int (sint (60 :: 64 word))) = 60" by code_simp
  show "nearest64 (rat_of_int (sint (100 :: 64 word))) = 100" by code_simp
  show "(100 :: rat) \<noteq> 0" by simp
  show "nearest64 (60 / 100) = 5404319552844595 / 2 ^ 53" by code_simp
  show "\<bar>5404319552844595 / 2 ^ 53 :: rat\<bar> < 2 ^ 1024" by simp
  show "nearest64 (5404319552844595 / 2 ^ 53 * 100) = 60" by code_simp
  show "\<bar>60 :: rat\<bar> < 2 ^ 1024" by simp
qed

lemma percentage_40_of_100: "times100 (fdiv 40 100) = Some (Fin 40)"
proof (rule percentage_evaluation)
  show "nearest64 (rat_of_int (sint (40 :: 64 word))) = 40" by code_simp
  show "nearest64 (rat_of_int (sint (100 :: 64 word))) = 100" by code_simp
  show "(100 :: rat) \<noteq> 0" by simp
  show "nearest64 (40 / 100) = 3602879701896397 / 2 ^ 53" by code_simp
  show "\<bar>3602879701896397 / 2 ^ 53 :: rat\<bar> < 2 ^ 1024" by simp
  show "nearest64 (3602879701896397 / 2 ^ 53 * 100) = 40" by code_simp
  show "\<bar>40 :: rat\<bar> < 2 ^ 1024" by simp
qed

text \<open>
  C2 as stated fails where it says ``exactly'': the percentages are doubles, the result of
  a rounded division followed by a rounded multiplication.  For a state with one county of
  7 Democratic and 29 Republican votes in 100, the aggregated row has the percentages
  \<open>7 + 2\<^sup>-\<^sup>5\<^sup>0\<close> (Python writes \<^verbatim>\<open>7.000000000000001\<close>) and \<open>29 - 2\<^sup>-\<^sup>4\<^sup>8\<close>
  (\<^verbatim>\<open>28.999999999999996\<close>), not 7 and 29.
\<close>

theorem percentages_are_rounded_counterexample:
  "grouped [\<lparr>state_abbr = Some ''A'', votes_dem = 7, votes_gop = 29, total_votes = 100,
             per_dem = (), per_gop = (), combined_fips = 1001\<rparr>]
     = [\<lparr>state_abbr = ''A'', votes_dem = 7, votes_gop = 29, total_votes = 100,
         per_dem = Some (Fin (7 + 1 / 2 ^ 50)), per_gop = Some (Fin (29 - 1 / 2 ^ 48))\<rparr>]
   \<and> exact_percentage 7 100 = 7 \<and> exact_percentage 29 100 = 29
   \<and> (7 + 1 / 2 ^ 50 :: rat) \<noteq> 7 \<and> (29 - 1 / 2 ^ 48 :: rat) \<noteq> 29"
proof -
  have "grouped [\<lparr>state_abbr = Some ''A'', votes_dem = 7, votes_gop = 29, total_votes = 100,
             per_dem = (), per_gop = (), combined_fips = 1001\<rparr>]
     = [\<lparr>state_abbr = ''A'', votes_dem = 7, votes_gop = 29, total_votes = 100,
         per_dem = times100 (fdiv 7 100), per_gop = times100 (fdiv 29 100)\<rparr>]"
    by (simp add: grouped_evaluation group_keys_def map_filter_simps)
  then show ?thesis
    unfolding percentage_7_of_100 percentage_29_of_100 by (simp add: exact_percentage_def)
qed

text \<open>The sums are those of \<^verbatim>\<open>int64\<close>: two counties of \<open>2\<^sup>6\<^sup>2\<close> votes each give the state
  \<open>-2\<^sup>6\<^sup>3\<close> votes.\<close>

lemma int64_sum_wraps:
  "map (\<lambda>g. sint (total_votes g))
     (grouped [\<lparr>state_abbr = Some ''A'', votes_dem = 0, votes_gop = 0, total_votes = 2 ^ 62,
                per_dem = (), per_gop = (), combined_fips = 1\<rparr>,
               \<lparr>state_abbr = Some ''A'', votes_dem = 0, votes_gop = 0, total_votes = 2 ^ 62,
                per_dem = (), per_gop = (), combined_fips = 2\<rparr>])
     = [- (2 ^ 63)]"
  by (simp add: grouped_evaluation group_keys_def map_filter_simps)

text \<open>
  C2, as the code has it.  For every state abbreviation \<open>k\<close> of the election table the grouped table
  has exactly one row.  Its three counts are the \<^verbatim>\<open>int64\<close> sums of the counts over the
  county rows of \<open>k\<close>, equal to the sums of whole numbers whenever those fit an \<^verbatim>\<open>int64\<close>.
  Its two percentages are computed from the summed counts, the percentages of the county
  file do not enter: each is the double \<^verbatim>\<open>(count / total) * 100\<close>, which is close to the
  exact percentage when the total is not zero and both numbers are below \<open>2\<^sup>5\<^sup>3\<close> in
  magnitude.  These two doubles are the pair the dictionary holds for \<open>k\<close>.
\<close>

theorem state_totals_and_percentages:
  assumes "Some k \<in> state_abbr ` set vd"
  shows "\<exists>g. filter (\<lambda>g. state_abbr g = k) (grouped vd) = [g] \<and>
           total_votes g = sum_list (map total_votes (filter (\<lambda>r. state_abbr r = Some k) vd)) \<and>
           votes_dem g = sum_list (map votes_dem (filter (\<lambda>r. state_abbr r = Some k) vd)) \<and>
           votes_gop g = sum_list (map votes_gop (filter (\<lambda>r. state_abbr r = Some k) vd)) \<and>
           (in_int64 (sum_list (map (\<lambda>r. sint (total_votes r)) (filter (\<lambda>r. state_abbr r = Some k) vd))) \<longrightarrow>
              sint (total_votes g) = sum_list (map (\<lambda>r. sint (total_votes r)) (filter (\<lambda>r. state_abbr r = Some k) vd))) \<and>
           (in_int64 (sum_list (map (\<lambda>r. sint (votes_dem r)) (filter (\<lambda>r. state_abbr r = Some k) vd))) \<longrightarrow>
              sint (votes_dem g) = sum_list (map (\<lambda>r. sint (votes_dem r)) (filter (\<lambda>r. state_abbr r = Some k) vd))) \<and>
           (in_int64 (sum_list (map (\<lambda>r. sint (votes_gop r)) (filter (\<lambda>r. state_abbr r = Some k) vd))) \<longrightarrow>
              sint (votes_gop g) = sum_list (map (\<lambda>r. sint (votes_gop r)) (filter (\<lambda>r. state_abbr r = Some k) vd))) \<and>
           per_dem g = times100 (fdiv (votes_dem g) (total_votes g)) \<and>
           per_gop g = times100 (fdiv (votes_gop g) (total_votes g)) \<and>
           (sint (total_votes g) \<noteq> 0 \<and> \<bar>sint (total_votes g)\<bar> < 2 ^ 53 \<and> \<bar>sint (votes_dem g)\<bar> < 2 ^ 53 \<longrightarrow>
              (\<exists>p. per_dem g = Some (Fin p) \<and>
                   close_to p (exact_percentage (sint (votes_dem g)) (sint (total_votes g))))) \<and>
           (sint (total_votes g) \<noteq> 0 \<and> \<bar>sint (total_votes g)\<bar> < 2 ^ 53 \<and> \<bar>sint (votes_gop g)\<bar> < 2 ^ 53 \<longrightarrow>
              (\<exists>p. per_gop g = Some (Fin p) \<and>
                   close_to p (exact_percentage (sint (votes_gop g)) (sint (total_votes g))))) \<and>
           voteDict (grouped vd) k = Some (per_dem g, per_gop g)"
proof -
  let ?rows = "filter (\<lambda>r. state_abbr r = Some k) vd"
  let ?g = "recalculate (sum_group vd k)"
  have gr: "group_rows vd k = ?rows" by (simp add: group_rows_def)
  have sums: "total_votes ?g = sum_list (map total_votes ?rows)"
    "votes_dem ?g = sum_list (map votes_dem ?rows)"
    "votes_gop ?g = sum_list (map votes_gop ?rows)"
    by (simp_all add: recalculate_def sum_group_def gr)
  have exact: "in_int64 (sum_list (map (\<lambda>r. sint (f r)) ?rows)) \<longrightarrow>
      sint (sum_list (map f ?rows)) = sum_list (map (\<lambda>r. sint (f r)) ?rows)"
    for f :: "(string option, 'a) county_votes \<Rightarrow> 64 word"
    using sint_sum_list_exact[of "map f ?rows"] by (simp add: in_int64_def comp_def)
  have pct: "per_dem ?g = times100 (fdiv (votes_dem ?g) (total_votes ?g))"
    "per_gop ?g = times100 (fdiv (votes_gop ?g) (total_votes ?g))"
    by (simp_all add: recalculate_def)
  have close: "sint t \<noteq> 0 \<and> \<bar>sint t\<bar> < 2 ^ 53 \<and> \<bar>sint v\<bar> < 2 ^ 53 \<longrightarrow>
      (\<exists>p. times100 (fdiv v t) = Some (Fin p) \<and> close_to p (exact_percentage (sint v) (sint t)))"
    for v t :: "64 word"
    using percentage_error[of t v] unfolding close_to_def exact_percentage_def by blast
  have e1: "in_int64 (sum_list (map (\<lambda>r. sint (total_votes r)) ?rows)) \<longrightarrow>
      sint (total_votes ?g) = sum_list (map (\<lambda>r. sint (total_votes r)) ?rows)"
    unfolding sums(1) by (rule exact)
  have e2: "in_int64 (sum_list (map (\<lambda>r. sint (votes_dem r)) ?rows)) \<longrightarrow>
      sint (votes_dem ?g) = sum_list (map (\<lambda>r. sint (votes_dem r)) ?rows)"
    unfolding sums(2) by (rule exact)
  have e3: "in_int64 (sum_list (map (\<lambda>r. sint (votes_gop r)) ?rows)) \<longrightarrow>
      sint (votes_gop ?g) = sum_list (map (\<lambda>r. sint (votes_gop r)) ?rows)"
    unfolding sums(3) by (rule exact)
  have c1: "sint (total_votes ?g) \<noteq> 0 \<and> \<bar>sint (total_votes ?g)\<bar> < 2 ^ 53 \<and> \<bar>sint (votes_dem ?g)\<bar> < 2 ^ 53 \<longrightarrow>
      (\<exists>p. per_dem ?g = Some (Fin p) \<and>
           close_to p (exact_percentage (sint (votes_dem ?g)) (sint (total_votes ?g))))"
    unfolding pct(1) by (rule close)
  have c2: "sint (total_votes ?g) \<noteq> 0 \<and> \<bar>sint (total_votes ?g)\<bar> < 2 ^ 53 \<and> \<bar>sint (votes_gop ?g)\<bar> < 2 ^ 53 \<longrightarrow>
      (\<exists>p. per_gop ?g = Some (Fin p) \<and>
           close_to p (exact_percentage (sint (votes_gop ?g)) (sint (total_votes ?g))))"
    unfolding pct(2) by (rule close)
  show ?thesis
    by (intro exI[of _ ?g] conjI)
       (fact grouped_row(1)[OF assms] sums e1 e2 e3 pct c1 c2 grouped_row(2)[OF assms])+
qed

theorem state_totals_and_percentages_witness:
  "Some ''A'' \<in> state_abbr ` set
      [\<lparr>state_abbr = Some ''B'', votes_dem = 30, votes_gop = 70, total_votes = 100,
         per_dem = (), per_gop = (), combined_fips = 2001\<rparr>,
       \<lparr>state_abbr = Some ''A'', votes_dem = 10, votes_gop = 90, total_votes = 100,
         per_dem = (), per_gop = (), combined_fips = 1001\<rparr>,
       \<lparr>state_abbr = None, votes_dem = 5, votes_gop = 5, total_votes = 10,
         per_dem = (), per_gop = (), combined_fips = 7\<rparr>,
       \<lparr>state_abbr = Some ''A'', votes_dem = 900, votes_gop = 100, total_votes = 1000,
         per_dem = (), per_gop = (), combined_fips = 1003\<rparr>]
   \<and> in_int64 (100 + 1000) \<and> in_int64 (10 + 900) \<and> in_int64 (90 + 100)
   \<and> (\<exists>g. filter (\<lambda>g. state_abbr g = ''A'') (grouped
      [\<lparr>state_abbr = Some ''B'', votes_dem = 30, votes_gop = 70, total_votes = 100,
         per_dem = (), per_gop = (), combined_fips = 2001\<rparr>,
       \<lparr>state_abbr = Some ''A'', votes_dem = 10, votes_gop = 90, total_votes = 100,
         per_dem = (), per_gop = (), combined_fips = 1001\<rparr>,
       \<lparr>state_abbr = None, votes_dem = 5, votes_gop = 5, total_votes = 10,
         per_dem = (), per_gop = (), combined_fips = 7\<rparr>,
       \<lparr>state_abbr = Some ''A'', votes_dem = 900, votes_gop = 100, total_votes = 1000,
         per_dem = (), per_gop = (), combined_fips = 1003\<rparr>]) = [g]
        \<and> sint (total_votes g) = 1100 \<and> sint (votes_dem g) = 910 \<and> sint (votes_gop g) = 190
        \<and> per_dem g = Some (Fin (5821414291061295 / 2 ^ 46))
        \<and> close_to (5821414291061295 / 2 ^ 46) (exact_percentage 910 1100)
        \<and> per_gop g = Some (Fin (2430920253410211 / 2 ^ 47))
        \<and> close_to (2430920253410211 / 2 ^ 47) (exact_percentage 190 1100))"
proof -
  let ?vd = "[\<lparr>state_abbr = Some ''B'', votes_dem = 30, votes_gop = 70, total_votes = 100,
         per_dem = (), per_gop = (), combined_fips = 2001\<rparr>,
       \<lparr>state_abbr = Some ''A'', votes_dem = 10, votes_gop = 90, total_votes = 100,
         per_dem = (), per_gop = (), combined_fips = 1001\<rparr>,
       \<lparr>state_abbr = None, votes_dem = 5, votes_gop = 5, total_votes = 10,
         per_dem = (), per_gop = (), combined_fips = 7\<rparr>,
       \<lparr>state_abbr = Some ''A'', votes_dem = 900, votes_gop = 100, total_votes = 1000,
         per_dem = (), per_gop = (), combined_fips = 1003\<rparr>] :: (string option, unit) county_votes list"
  have h: "Some ''A'' \<in> state_abbr ` set ?vd" by simp
  have i: "in_int64 (100 + 1000)" "in_int64 (10 + 900)" "in_int64 (90 + 100)"
    by (simp_all add: in_int64_def)
  from state_totals_and_percentages[OF h] obtain g where
    g: "filter (\<lambda>g. state_abbr g = ''A'') (grouped ?vd) = [g]"
       "total_votes g = sum_list (map total_votes (filter (\<lambda>r. state_abbr r = Some ''A'') ?vd))"
       "votes_dem g = sum_list (map votes_dem (filter (\<lambda>r. state_abbr r = Some ''A'') ?vd))"
       "votes_gop g = sum_list (map votes_gop (filter (\<lambda>r. state_abbr r = Some ''A'') ?vd))"
       "per_dem g = times100 (fdiv (votes_dem g) (total_votes g))"
       "per_gop g = times100 (fdiv (votes_gop g) (total_votes g))"
       "sint (total_votes g) \<noteq> 0 \<and> \<bar>sint (total_votes g)\<bar> < 2 ^ 53 \<and> \<bar>sint (votes_dem g)\<bar> < 2 ^ 53 \<longrightarrow>
              (\<exists>p. per_dem g = Some (Fin p) \<and>
                   close_to p (exact_percentage (sint (votes_dem g)) (sint (total_votes g))))"
       "sint (total_votes g) \<noteq> 0 \<and> \<bar>sint (total_votes g)\<bar> < 2 ^ 53 \<and> \<bar>sint (votes_gop g)\<bar> < 2 ^ 53 \<longrightarrow>
              (\<exists>p. per_gop g = Some (Fin p) \<and>
                   close_to p (exact_percentage (sint (votes_gop g)) (sint (total_votes g))))"
    by blast
  have t: "total_votes g = 1100" "votes_dem g = 910" "votes_gop g = 190"
    using g(2,3,4) by simp_all
  have st: "sint (total_votes g) = 1100" "sint (votes_dem g) = 910" "sint (votes_gop g) = 190"
    unfolding t by simp_all
  have pd: "per_dem g = Some (Fin (5821414291061295 / 2 ^ 46))"
    unfolding g(5) t by (rule percentage_910_of_1100)
  have pg: "per_gop g = Some (Fin (2430920253410211 / 2 ^ 47))"
    unfolding g(6) t by (rule percentage_190_of_1100)
  from g(7) obtain p where p: "per_dem g = Some (Fin p)"
      "close_to p (exact_percentage (sint (votes_dem g)) (sint (total_votes g)))"
    unfolding st by auto
  from p(1) have "p = 5821414291061295 / 2 ^ 46" unfolding pd by (simp only: option.inject fnum.inject)
  with p(2) have cd: "close_to (5821414291061295 / 2 ^ 46) (exact_percentage 910 1100)"
    unfolding st by (simp only:)
  from g(8) obtain r where r: "per_gop g = Some (Fin r)"
      "close_to r (exact_percentage (sint (votes_gop g)) (sint (total_votes g)))"
    unfolding st by auto
  from r(1) have "r = 2430920253410211 / 2 ^ 47" unfolding pg by (simp only: option.inject fnum.inject)
  with r(2) have cg: "close_to (2430920253410211 / 2 ^ 47) (exact_percentage 190 1100)"
    unfolding st by (simp only:)
  from g(1) st pd pg cd cg h i show ?thesis by blast
qed


section \<open>Properties of the join\<close>

lemma get_col_length:
  "wf_frame h \<Longrightarrow> get_col h c = Inr vs \<Longrightarrow> length vs = index_len h"
  by (auto simp: wf_frame_def get_col_def list_all_iff split: option.splits dest!: map_of_SomeD)

lemma length_location_cells: "wf_frame h \<Longrightarrow> length (location_cells h) = index_len h"
  by (auto simp: location_cells_def get_col_length split: sum.splits)

lemma set_col_fresh:
  "c \<notin> set (col_names h) \<Longrightarrow> set_col h c vs = h\<lparr>cols := cols h @ [(c, vs)]\<rparr>"
  by (simp add: set_col_def)

lemma get_col_append_other:
  "c \<notin> fst ` set extra \<Longrightarrow> get_col (h\<lparr>cols := cols h @ extra\<rparr>) c = get_col h c"
proof -
  assume "c \<notin> fst ` set extra"
  then have "map_of extra c = None" by (simp add: map_of_eq_None_iff)
  then show ?thesis by (simp add: get_col_def map_add_def split: option.splits)
qed

lemma location_cells_append:
  "''LocationAbbr'' \<notin> fst ` set extra \<Longrightarrow>
     location_cells (h\<lparr>cols := cols h @ extra\<rparr>) = location_cells h"
  by (simp add: location_cells_def get_col_append_other split: sum.splits)

lemma healthdata_gdf_cols:
  assumes "''per_dem'' \<notin> set (col_names h)" "''per_gop'' \<notin> set (col_names h)"
    "''geometry'' \<notin> set (col_names h)"
  shows "healthdata_gdf vd ss h =
     \<lparr>index_len = index_len h,
      cols = cols h @
        [(''per_dem'', map (\<lambda>loc. fst (vote_lookup (voteDict (grouped vd)) loc)) (location_cells h)),
         (''per_gop'', map (\<lambda>loc. snd (vote_lookup (voteDict (grouped vd)) loc)) (location_cells h)),
         (''geometry'', map (geometry_lookup (stateDict ss)) (location_cells h))]\<rparr>"
proof -
  let ?pd = "map (\<lambda>loc. fst (vote_lookup (voteDict (grouped vd)) loc)) (location_cells h)"
  let ?pg = "map (\<lambda>loc. snd (vote_lookup (voteDict (grouped vd)) loc)) (location_cells h)"
  let ?h1 = "h\<lparr>cols := cols h @ [(''per_dem'', ?pd)]\<rparr>"
  let ?h2 = "?h1\<lparr>cols := cols ?h1 @ [(''per_gop'', ?pg)]\<rparr>"
  have 1: "set_col h ''per_dem'' ?pd = ?h1" using assms(1) by (rule set_col_fresh)
  have "''per_gop'' \<notin> set (col_names ?h1)" using assms(2) by (simp add: col_names_def)
  then have 2: "set_col ?h1 ''per_gop'' ?pg = ?h2" by (rule set_col_fresh)
  have av: "add_votes (voteDict (grouped vd)) h = ?h2"
    unfolding add_votes_def Let_def 1 2 ..
  have "''geometry'' \<notin> set (col_names ?h2)" using assms(3) by (simp add: col_names_def)
  then have 3: "set_col ?h2 ''geometry'' gs = ?h2\<lparr>cols := cols ?h2 @ [(''geometry'', gs)]\<rparr>" for gs
    by (rule set_col_fresh)
  have lc: "location_cells ?h2 = location_cells h"
    by (simp add: location_cells_append)
  show ?thesis
    unfolding healthdata_gdf_def av add_geometry_def 3 lc by simp
qed

lemma stateDict_map_of: "stateDict ss = map_of (rev ss)"
  unfolding stateDict_def using fold_upd_map_of[of fst snd ss Map.empty] by simp

lemma grouped_unique_row:
  assumes "g \<in> set (grouped vd)"
  shows "voteDict (grouped vd) (state_abbr g) = Some (per_dem g, per_gop g)"
proof -
  from assms obtain k where k: "k \<in> set (group_keys vd)" and g: "g = recalculate (sum_group vd k)"
    by (auto simp: grouped_alt)
  have "Some k \<in> state_abbr ` set vd" using k by (simp add: set_group_keys)
  from grouped_row(2)[OF this] show ?thesis by (simp add: g state_abbr_recalculate)
qed

lemma voteDict_unmatched:
  assumes "\<forall>g\<in>set (grouped vd). state_abbr g \<noteq> s"
  shows "voteDict (grouped vd) s = None"
proof (rule voteDict_None)
  show "Some s \<notin> state_abbr ` set vd"
  proof
    assume "Some s \<in> state_abbr ` set vd"
    then have "s \<in> set (group_keys vd)" by (simp add: set_group_keys)
    then have "recalculate (sum_group vd s) \<in> set (grouped vd)" by (simp add: grouped_alt)
    with assms show False by (auto simp: state_abbr_recalculate)
  qed
qed

text \<open>
  C3.  For a health table with a \<^verbatim>\<open>LocationAbbr\<close> column, and in which the three joined
  columns are new, the joined table has the same index and the same columns in the same
  order, followed by \<^verbatim>\<open>per_dem\<close>, \<^verbatim>\<open>per_gop\<close> and \<^verbatim>\<open>geometry\<close>, each one cell per
  row.  In row \<open>i\<close> the two percentages are those of the row of the election aggregate whose
  state is the row's \<^verbatim>\<open>LocationAbbr\<close>, and missing when the aggregate has no such row; the
  geometry is the polygon the dictionary holds for that state, and missing when the
  shapefile has no such state.  No case raises an error: the join is a total function.
\<close>

theorem joins_keep_rows_and_columns:
  assumes wf: "wf_frame h"
    and fresh: "''per_dem'' \<notin> set (col_names h)" "''per_gop'' \<notin> set (col_names h)"
      "''geometry'' \<notin> set (col_names h)"
    and locs: "get_col h ''LocationAbbr'' = Inr locs"
  shows "\<exists>pd pg geo.
     healthdata_gdf vd ss h =
       \<lparr>index_len = index_len h,
        cols = cols h @ [(''per_dem'', pd), (''per_gop'', pg), (''geometry'', geo)]\<rparr> \<and>
     length pd = index_len h \<and> length pg = index_len h \<and> length geo = index_len h \<and>
     (\<forall>i<index_len h.
        (\<forall>g\<in>set (grouped vd). locs ! i = Str (state_abbr g) \<longrightarrow>
           pd ! i = cell_of (per_dem g) \<and> pg ! i = cell_of (per_gop g)) \<and>
        ((\<forall>g\<in>set (grouped vd). locs ! i \<noteq> Str (state_abbr g)) \<longrightarrow>
           pd ! i = NA \<and> pg ! i = NA) \<and>
        (\<forall>s p. locs ! i = Str s \<and> stateDict ss s = Some p \<longrightarrow> (s, p) \<in> set ss \<and> geo ! i = Geom p) \<and>
        ((\<forall>sp\<in>set ss. locs ! i \<noteq> Str (fst sp)) \<longrightarrow> geo ! i = NA))"
proof -
  let ?pd = "map (\<lambda>loc. fst (vote_lookup (voteDict (grouped vd)) loc)) locs"
  let ?pg = "map (\<lambda>loc. snd (vote_lookup (voteDict (grouped vd)) loc)) locs"
  let ?geo = "map (geometry_lookup (stateDict ss)) locs"
  have lc: "location_cells h = locs" using locs by (simp add: location_cells_def)
  have len: "length locs = index_len h" using wf locs by (rule get_col_length)
  have eq: "healthdata_gdf vd ss h =
       \<lparr>index_len = index_len h,
        cols = cols h @ [(''per_dem'', ?pd), (''per_gop'', ?pg), (''geometry'', ?geo)]\<rparr>"
    using healthdata_gdf_cols[OF fresh] by (simp add: lc)
  have rows: "(\<forall>g\<in>set (grouped vd). locs ! i = Str (state_abbr g) \<longrightarrow>
           ?pd ! i = cell_of (per_dem g) \<and> ?pg ! i = cell_of (per_gop g)) \<and>
        ((\<forall>g\<in>set (grouped vd). locs ! i \<noteq> Str (state_abbr g)) \<longrightarrow>
           ?pd ! i = NA \<and> ?pg ! i = NA) \<and>
        (\<forall>s p. locs ! i = Str s \<and> stateDict ss s = Some p \<longrightarrow> (s, p) \<in> set ss \<and> ?geo ! i = Geom p) \<and>
        ((\<forall>sp\<in>set ss. locs ! i \<noteq> Str (fst sp)) \<longrightarrow> ?geo ! i = NA)" if i: "i < index_len h" for i
  proof (intro conjI ballI allI impI)
    fix g assume "g \<in> set (grouped vd)" "locs ! i = Str (state_abbr g)"
    then show "?pd ! i = cell_of (per_dem g)" "?pg ! i = cell_of (per_gop g)"
      using i len by (simp_all add: vote_lookup_def grouped_unique_row)
  next
    assume a: "\<forall>g\<in>set (grouped vd). locs ! i \<noteq> Str (state_abbr g)"
    have "vote_lookup (voteDict (grouped vd)) (locs ! i) = (NA, NA)"
    proof (cases "locs ! i")
      case (Str s)
      then have "\<forall>g\<in>set (grouped vd). state_abbr g \<noteq> s" using a by auto
      then show ?thesis using Str by (simp add: vote_lookup_def voteDict_unmatched)
    qed (simp_all add: vote_lookup_def)
    then show "?pd ! i = NA" "?pg ! i = NA" using i len by simp_all
  next
    fix s p assume a: "locs ! i = Str s \<and> stateDict ss s = Some p"
    then show "(s, p) \<in> set ss" by (auto simp: stateDict_map_of dest: map_of_SomeD)
    show "?geo ! i = Geom p" using a i len by (simp add: geometry_lookup_def)
  next
    assume a: "\<forall>sp\<in>set ss. locs ! i \<noteq> Str (fst sp)"
    show "?geo ! i = NA"
    proof (cases "locs ! i")
      case (Str s)
      then have "s \<notin> fst ` set ss" using a by auto
      then have "stateDict ss s = None" by (simp add: stateDict_map_of map_of_eq_None_iff)
      then show ?thesis using Str i len by (simp add: geometry_lookup_def)
    qed (use i len in \<open>simp_all add: geometry_lookup_def\<close>)
  qed
  show ?thesis
    apply (rule exI[of _ ?pd], rule exI[of _ ?pg], rule exI[of _ ?geo])
    using eq len rows by simp
qed

theorem joins_keep_rows_and_columns_witness:
  "wf_frame (\<lparr>index_len = 3, cols = [(''LocationAbbr'', [Str ''A'', Str ''PR'', Str ''B'']),
        (''DataValue'', [Num (Fin 10), Num (Fin 20), NA])]\<rparr> :: nat frame)
   \<and> ''per_dem'' \<notin> set (col_names (\<lparr>index_len = 3, cols = [(''LocationAbbr'', [Str ''A'', Str ''PR'', Str ''B'']),
        (''DataValue'', [Num (Fin 10), Num (Fin 20), NA])]\<rparr> :: nat frame))
   \<and> ''per_gop'' \<notin> set (col_names (\<lparr>index_len = 3, cols = [(''LocationAbbr'', [Str ''A'', Str ''PR'', Str ''B'']),
        (''DataValue'', [Num (Fin 10), Num (Fin 20), NA])]\<rparr> :: nat frame))
   \<and> ''geometry'' \<notin> set (col_names (\<lparr>index_len = 3, cols = [(''LocationAbbr'', [Str ''A'', Str ''PR'', Str ''B'']),
        (''DataValue'', [Num (Fin 10), Num (Fin 20), NA])]\<rparr> :: nat frame))
   \<and> get_col (\<lparr>index_len = 3, cols = [(''LocationAbbr'', [Str ''A'', Str ''PR'', Str ''B'']),
        (''DataValue'', [Num (Fin 10), Num (Fin 20), NA])]\<rparr> :: nat frame) ''LocationAbbr''
       = Inr [Str ''A'', Str ''PR'', Str ''B'']
   \<and> (\<exists>pd pg geo.
        healthdata_gdf
          ([\<lparr>state_abbr = Some ''B'', votes_dem = 30, votes_gop = 70, total_votes = 100,
             per_dem = 30, per_gop = 70, combined_fips = 2001\<rparr>,
           \<lparr>state_abbr = Some ''A'', votes_dem = 60, votes_gop = 40, total_votes = 100,
             per_dem = 60, per_gop = 40, combined_fips = 1001\<rparr>]
             :: (string option, real) county_votes list)
          [(''A'', 1), (''PR'', 2)]
          (\<lparr>index_len = 3, cols = [(''LocationAbbr'', [Str ''A'', Str ''PR'', Str ''B'']),
             (''DataValue'', [Num (Fin 10), Num (Fin 20), NA])]\<rparr> :: nat frame)
        = \<lparr>index_len = 3, cols = [(''LocationAbbr'', [Str ''A'', Str ''PR'', Str ''B'']),
             (''DataValue'', [Num (Fin 10), Num (Fin 20), NA]),
             (''per_dem'', pd), (''per_gop'', pg), (''geometry'', geo)]\<rparr>
        \<and> length pd = 3 \<and> length pg = 3 \<and> length geo = 3
        \<and> pd = [Num (Fin 60), NA, Num (Fin 30)]
        \<and> pg = [Num (Fin 40), NA, Num (Fin 70)]
        \<and> geo = [Geom 1, Geom 2, NA])"
proof -
  let ?h = "\<lparr>index_len = 3, cols = [(''LocationAbbr'', [Str ''A'', Str ''PR'', Str ''B'']),
        (''DataValue'', [Num (Fin 10), Num (Fin 20), NA])]\<rparr> :: nat frame"
  let ?vd = "[\<lparr>state_abbr = Some ''B'', votes_dem = 30, votes_gop = 70, total_votes = 100,
             per_dem = 30, per_gop = 70, combined_fips = 2001\<rparr>,
           \<lparr>state_abbr = Some ''A'', votes_dem = 60, votes_gop = 40, total_votes = 100,
             per_dem = 60, per_gop = 40, combined_fips = 1001\<rparr>] :: (string option, real) county_votes list"
  let ?ss = "[(''A'', 1), (''PR'', 2)] :: (string \<times> nat) list"
  have wf: "wf_frame ?h" by (simp add: wf_frame_def col_names_def)
  have f: "''per_dem'' \<notin> set (col_names ?h)" "''per_gop'' \<notin> set (col_names ?h)"
    "''geometry'' \<notin> set (col_names ?h)" by (simp_all add: col_names_def)
  have l: "get_col ?h ''LocationAbbr'' = Inr [Str ''A'', Str ''PR'', Str ''B'']"
    by (simp add: get_col_def)
  have g: "grouped ?vd
     = [\<lparr>state_abbr = ''A'', votes_dem = 60, votes_gop = 40, total_votes = 100,
          per_dem = Some (Fin 60), per_gop = Some (Fin 40)\<rparr>,
        \<lparr>state_abbr = ''B'', votes_dem = 30, votes_gop = 70, total_votes = 100,
          per_dem = Some (Fin 30), per_gop = Some (Fin 70)\<rparr>]"
    by (simp add: grouped_evaluation group_keys_def map_filter_simps
        percentage_60_of_100 percentage_40_of_100 percentage_30_of_100 percentage_70_of_100)
  have e: "healthdata_gdf ?vd ?ss ?h
    = \<lparr>index_len = 3, cols = [(''LocationAbbr'', [Str ''A'', Str ''PR'', Str ''B'']),
        (''DataValue'', [Num (Fin 10), Num (Fin 20), NA]),
        (''per_dem'', [Num (Fin 60), NA, Num (Fin 30)]),
        (''per_gop'', [Num (Fin 40), NA, Num (Fin 70)]),
        (''geometry'', [Geom 1, Geom 2, NA])]\<rparr>"
    by (simp add: healthdata_gdf_def add_geometry_def add_votes_def g voteDict_def stateDict_def
      location_cells_def get_col_def set_col_def col_names_def vote_lookup_def
      geometry_lookup_def cell_of_def)
  from joins_keep_rows_and_columns[OF wf f l, of ?vd ?ss] obtain pd pg geo where
    r: "healthdata_gdf ?vd ?ss ?h =
        \<lparr>index_len = index_len ?h,
          cols = cols ?h @ [(''per_dem'', pd), (''per_gop'', pg), (''geometry'', geo)]\<rparr>"
       "length pd = index_len ?h" "length pg = index_len ?h" "length geo = index_len ?h"
    by blast
  from r(1) have "pd = [Num (Fin 60), NA, Num (Fin 30)] \<and> pg = [Num (Fin 40), NA, Num (Fin 70)]
      \<and> geo = [Geom 1, Geom 2, NA]"
    unfolding e by simp
  with r wf f l show ?thesis by simp
qed


section \<open>Properties of the sort\<close>

lemma bisect_range:
  "l \<le> r \<Longrightarrow> l \<le> bisect lt xs p l r \<and> bisect lt xs p l r \<le> r"
proof (induction lt xs p l r rule: bisect.induct)
  case (1 lt xs pivot l r)
  show ?case
  proof (cases "l < r")
    case True
    let ?p = "l + (r - l) div 2"
    have b: "l \<le> ?p" "?p < r" using True by auto
    show ?thesis
    proof (cases "lt pivot (xs ! ?p)")
      case t: True
      have "l \<le> bisect lt xs pivot l ?p \<and> bisect lt xs pivot l ?p \<le> ?p"
        using "1.IH"(1)[OF True refl t] b by simp
      then show ?thesis using True t b by (subst (1 2) bisect.simps) (simp add: Let_def)
    next
      case f: False
      have "?p + 1 \<le> bisect lt xs pivot (?p + 1) r \<and> bisect lt xs pivot (?p + 1) r \<le> r"
        using "1.IH"(2)[OF True refl f] b by simp
      then show ?thesis using True f b by (subst (1 2) bisect.simps) (simp add: Let_def)
    qed
  next
    case False
    then show ?thesis using "1.prems" by (subst (1 2) bisect.simps) simp
  qed
qed

lemma bisect_split:
  fixes f :: "'a \<Rightarrow> 'b::linorder"
  assumes "\<forall>x\<in>set xs. lt p x \<longleftrightarrow> f p < f x"
    and "sorted (map f xs)"
    and "l \<le> r" and "r \<le> length xs"
    and "\<forall>i<l. f (xs ! i) \<le> f p"
    and "\<forall>i. r \<le> i \<and> i < length xs \<longrightarrow> f p < f (xs ! i)"
  shows "(\<forall>i<bisect lt xs p l r. f (xs ! i) \<le> f p) \<and>
         (\<forall>i. bisect lt xs p l r \<le> i \<and> i < length xs \<longrightarrow> f p < f (xs ! i))"
  using assms
proof (induction lt xs p l r rule: bisect.induct)
  case (1 lt xs pivot l r)
  note agree = "1.prems"(1) and srt = "1.prems"(2)
  have mono: "\<And>i j. i \<le> j \<Longrightarrow> j < length xs \<Longrightarrow> f (xs ! i) \<le> f (xs ! j)"
    using srt by (simp add: sorted_iff_nth_mono)
  show ?case
  proof (cases "l < r")
    case True
    let ?p = "l + (r - l) div 2"
    have b: "l \<le> ?p" "?p < r" "?p < length xs" using True "1.prems"(4) by auto
    have ag: "lt pivot (xs ! ?p) \<longleftrightarrow> f pivot < f (xs ! ?p)"
      using agree b(3) by simp
    show ?thesis
    proof (cases "lt pivot (xs ! ?p)")
      case t: True
      have hi: "\<forall>i. ?p \<le> i \<and> i < length xs \<longrightarrow> f pivot < f (xs ! i)"
        using mono t ag by (meson less_le_trans)
      have "(\<forall>i<bisect lt xs pivot l ?p. f (xs ! i) \<le> f pivot) \<and>
         (\<forall>i. bisect lt xs pivot l ?p \<le> i \<and> i < length xs \<longrightarrow> f pivot < f (xs ! i))"
        using "1.IH"(1)[OF True refl t agree srt _ _ "1.prems"(5) hi] b by simp
      moreover have "bisect lt xs pivot l r = bisect lt xs pivot l ?p"
        using True t by (subst bisect.simps) (simp add: Let_def)
      ultimately show ?thesis by simp
    next
      case fl: False
      have le: "f (xs ! ?p) \<le> f pivot" using fl ag by simp
      have lo: "\<forall>i<?p + 1. f (xs ! i) \<le> f pivot"
      proof (intro allI impI)
        fix i assume "i < ?p + 1"
        then have "f (xs ! i) \<le> f (xs ! ?p)" using mono[of i ?p] b(3) by simp
        then show "f (xs ! i) \<le> f pivot" using le by simp
      qed
      have "(\<forall>i<bisect lt xs pivot (?p + 1) r. f (xs ! i) \<le> f pivot) \<and>
         (\<forall>i. bisect lt xs pivot (?p + 1) r \<le> i \<and> i < length xs \<longrightarrow> f pivot < f (xs ! i))"
        using "1.IH"(2)[OF True refl fl agree srt _ "1.prems"(4) lo "1.prems"(6)] b by simp
      moreover have "bisect lt xs pivot l r = bisect lt xs pivot (?p + 1) r"
        using True fl by (subst bisect.simps) (simp add: Let_def)
      ultimately show ?thesis by simp
    qed
  next
    case False
    then have eq: "bisect lt xs pivot l r = l" by (subst bisect.simps) simp
    have "l = r" using False "1.prems"(3) by simp
    then show ?thesis using eq "1.prems"(5,6) by simp
  qed
qed

lemma mset_insert_at: "mset (insert_at k p xs) = add_mset p (mset xs)"
proof -
  have "mset (take k xs) + mset (drop k xs) = mset xs"
    by (metis append_take_drop_id mset_append)
  then show ?thesis by (simp add: insert_at_def)
qed

lemma mset_binarysort: "mset (binarysort lt front rest) = mset front + mset rest"
  by (induction rest arbitrary: front) (simp_all add: mset_insert_at)

lemma mset_short_sort: "mset (short_sort lt xs) = mset xs"
proof -
  have "mset (take n xs) + mset (drop n xs) = mset xs" for n
    by (metis append_take_drop_id mset_append)
  then show ?thesis by (simp add: short_sort_def Let_def mset_binarysort)
qed

text \<open>The sort permutes the list, whatever the comparison and whatever the merge phase.\<close>

lemma mset_list_sort: "mset (list_sort merge lt xs) = mset xs"
proof -
  have "mset (map (\<lambda>i. xs ! i) order) = mset xs" if "sort order = [0..<length xs]" for order
  proof -
    have "mset order = mset [0..<length xs]" using that by (metis mset_sort)
    then have "mset (map (\<lambda>i. xs ! i) order) = mset (map (\<lambda>i. xs ! i) [0..<length xs])"
      by (simp only: mset_map)
    then show ?thesis by (simp only: map_nth)
  qed
  then show ?thesis by (simp add: list_sort_def Let_def mset_short_sort)
qed

text \<open>Insertion at the bisection point, for keys that \<open>lt\<close> orders as \<open>f\<close> does.\<close>

lemma insert_at_bisect:
  fixes f :: "'a \<Rightarrow> 'b::linorder"
  assumes agree: "\<forall>x\<in>set xs. lt p x \<longleftrightarrow> f p < f x" and srt: "sorted (map f xs)"
  defines "k \<equiv> bisect lt xs p 0 (length xs)"
  shows "sorted (map f (insert_at k p xs))"
    and "filter (\<lambda>x. f x = c) (insert_at k p xs)
           = filter (\<lambda>x. f x = c) xs @ filter (\<lambda>x. f x = c) [p]"
proof -
  have k: "k \<le> length xs" unfolding k_def using bisect_range[of 0 "length xs"] by simp
  have sp: "(\<forall>i<k. f (xs ! i) \<le> f p) \<and> (\<forall>i. k \<le> i \<and> i < length xs \<longrightarrow> f p < f (xs ! i))"
    unfolding k_def by (rule bisect_split[where f = f and lt = lt and p = p and xs = xs, OF agree srt]) auto
  have lo: "\<forall>x\<in>set (take k xs). f x \<le> f p"
  proof
    fix x assume "x \<in> set (take k xs)"
    then obtain i where "i < length (take k xs)" "take k xs ! i = x"
      by (auto simp: in_set_conv_nth)
    then show "f x \<le> f p" using sp k by auto
  qed
  have hi: "\<forall>x\<in>set (drop k xs). f p < f x"
  proof
    fix x assume "x \<in> set (drop k xs)"
    then obtain i where "i < length (drop k xs)" "drop k xs ! i = x"
      by (auto simp: in_set_conv_nth)
    then show "f p < f x" using sp k by auto
  qed
  have st: "sorted (map f (take k xs))" "sorted (map f (drop k xs))"
    using srt by (simp_all add: sorted_wrt_take sorted_wrt_drop sorted_map)
  have cross: "\<forall>x\<in>set (take k xs). \<forall>y\<in>set (drop k xs). f x \<le> f y"
    using lo hi by (meson le_less_trans less_imp_le)
  show "sorted (map f (insert_at k p xs))"
    using st lo hi cross by (auto simp: insert_at_def sorted_append less_imp_le)
  have split: "filter (\<lambda>x. f x = c) xs
                 = filter (\<lambda>x. f x = c) (take k xs) @ filter (\<lambda>x. f x = c) (drop k xs)"
    by (metis append_take_drop_id filter_append)
  show "filter (\<lambda>x. f x = c) (insert_at k p xs)
           = filter (\<lambda>x. f x = c) xs @ filter (\<lambda>x. f x = c) [p]"
  proof (cases "f p = c")
    case True
    then have "filter (\<lambda>x. f x = c) (drop k xs) = []"
      using hi by (auto simp: filter_empty_conv)
    then show ?thesis using True split by (simp add: insert_at_def)
  next
    case False
    then show ?thesis using split by (simp add: insert_at_def)
  qed
qed

lemma binarysort_stable_sorted:
  fixes f :: "'a \<Rightarrow> 'b::linorder"
  assumes "\<forall>x\<in>set (front @ rest). \<forall>y\<in>set (front @ rest). lt x y \<longleftrightarrow> f x < f y"
    and "sorted (map f front)"
  shows "sorted (map f (binarysort lt front rest)) \<and>
         (\<forall>c. filter (\<lambda>x. f x = c) (binarysort lt front rest)
                = filter (\<lambda>x. f x = c) (front @ rest))"
  using assms
proof (induction rest arbitrary: front)
  case Nil
  then show ?case by simp
next
  case (Cons p rest)
  let ?k = "bisect lt front p 0 (length front)"
  let ?front = "insert_at ?k p front"
  have ag: "\<forall>x\<in>set front. lt p x \<longleftrightarrow> f p < f x" using Cons.prems(1) by simp
  note ins = insert_at_bisect[where f = f and lt = lt, OF ag Cons.prems(2)]
  have set': "set (?front @ rest) = set (front @ p # rest)"
    using mset_insert_at[of ?k p front] by (metis mset_eq_setD set_append list.simps(15) Un_insert_right Un_insert_left set_mset_add_mset_insert set_mset_mset)
  have "\<forall>x\<in>set (?front @ rest). \<forall>y\<in>set (?front @ rest). lt x y \<longleftrightarrow> f x < f y"
    unfolding set' using Cons.prems(1) .
  from Cons.IH[OF this ins(1)] show ?case
    by (simp add: ins(2))
qed

lemma ascending_run_le: "ascending_run lt prev xs \<le> length xs"
  by (induction xs arbitrary: prev) auto

lemma descending_run_le: "descending_run lt prev xs \<le> length xs"
  by (induction xs arbitrary: prev) auto

lemma ascending_run_sorted:
  fixes f :: "'a \<Rightarrow> 'b::linorder"
  assumes "\<forall>x\<in>set (prev # xs). \<forall>y\<in>set (prev # xs). lt x y \<longleftrightarrow> f x < f y"
  shows "sorted (map f (prev # take (ascending_run lt prev xs) xs))"
  using assms
proof (induction xs arbitrary: prev)
  case Nil
  then show ?case by simp
next
  case (Cons x xs)
  show ?case
  proof (cases "lt x prev")
    case True
    then show ?thesis by simp
  next
    case False
    then have le: "f prev \<le> f x" using Cons.prems by auto
    have "sorted (map f (x # take (ascending_run lt x xs) xs))"
      by (rule Cons.IH) (use Cons.prems in auto)
    then show ?thesis using False le by auto
  qed
qed

lemma descending_run_strict:
  fixes f :: "'a \<Rightarrow> 'b::linorder"
  assumes "\<forall>x\<in>set (prev # xs). \<forall>y\<in>set (prev # xs). lt x y \<longleftrightarrow> f x < f y"
  shows "sorted_wrt (\<lambda>a b. f b < f a) (prev # take (descending_run lt prev xs) xs)"
  using assms
proof (induction xs arbitrary: prev)
  case Nil
  then show ?case by simp
next
  case (Cons x xs)
  show ?case
  proof (cases "lt x prev")
    case False
    then show ?thesis by simp
  next
    case True
    then have le: "f x < f prev" using Cons.prems by auto
    have "sorted_wrt (\<lambda>a b. f b < f a) (x # take (descending_run lt x xs) xs)"
      by (rule Cons.IH) (use Cons.prems in auto)
    then show ?thesis using True le by auto
  qed
qed

lemma strict_desc_rev:
  fixes f :: "'a \<Rightarrow> 'b::linorder"
  assumes "sorted_wrt (\<lambda>a b. f b < f a) xs"
  shows "sorted (map f (rev xs))" and "filter (\<lambda>x. f x = c) (rev xs) = filter (\<lambda>x. f x = c) xs"
proof -
  have "sorted_wrt (\<lambda>a b. f a < f b) (rev xs)"
    using assms by (simp add: sorted_wrt_rev)
  then have "sorted_wrt (\<lambda>a b. f a \<le> f b) (rev xs)"
    by (rule sorted_wrt_mono_rel[rotated]) simp
  then show "sorted (map f (rev xs))" by (simp add: sorted_map)
  show "filter (\<lambda>x. f x = c) (rev xs) = filter (\<lambda>x. f x = c) xs"
    using assms
  proof (induction xs)
    case Nil
    then show ?case by simp
  next
    case (Cons a xs)
    then have ih: "filter (\<lambda>x. f x = c) (rev xs) = filter (\<lambda>x. f x = c) xs" by simp
    show ?case
    proof (cases "f a = c")
      case True
      then have "\<forall>x\<in>set xs. f x \<noteq> c" using Cons.prems by auto
      then have "filter (\<lambda>x. f x = c) xs = []" by (simp add: filter_empty_conv)
      then show ?thesis using True ih by simp
    next
      case False
      then show ?thesis using ih by simp
    qed
  qed
qed

lemma count_run_le: "fst (count_run lt xs) \<le> length xs"
  by (cases "(lt, xs)" rule: count_run.cases)
     (use ascending_run_le descending_run_le in \<open>auto simp: Suc_le_eq less_Suc_eq_le\<close>)

lemma count_run_front:
  fixes f :: "'a \<Rightarrow> 'b::linorder"
  assumes "\<forall>x\<in>set xs. \<forall>y\<in>set xs. lt x y \<longleftrightarrow> f x < f y"
  defines "n \<equiv> fst (count_run lt xs)"
  defines "front \<equiv> (if snd (count_run lt xs) then rev (take n xs) else take n xs)"
  shows "sorted (map f front)"
    and "filter (\<lambda>x. f x = c) front = filter (\<lambda>x. f x = c) (take n xs)"
proof -
  have "sorted (map f front) \<and> filter (\<lambda>x. f x = c) front = filter (\<lambda>x. f x = c) (take n xs)"
  proof (cases xs)
    case Nil
    then show ?thesis by (simp add: front_def n_def)
  next
    case (Cons x ys)
    show ?thesis
    proof (cases ys)
      case Nil
      then show ?thesis using Cons by (simp add: front_def n_def)
    next
      case (Cons y zs)
      have xs: "xs = x # y # zs" using \<open>xs = x # ys\<close> Cons by simp
      have ag: "\<forall>a\<in>set (y # zs). \<forall>b\<in>set (y # zs). lt a b \<longleftrightarrow> f a < f b"
        using assms(1) xs by simp
      have xy: "lt y x \<longleftrightarrow> f y < f x" using assms(1) xs by simp
      show ?thesis
      proof (cases "lt y x")
        case True
        have d: "sorted_wrt (\<lambda>a b. f b < f a) (y # take (descending_run lt y zs) zs)"
          by (rule descending_run_strict[OF ag])
        have "\<forall>z\<in>set (y # take (descending_run lt y zs) zs). f z < f x"
          using d True xy by (auto dest: in_set_takeD) 
        then have "sorted_wrt (\<lambda>a b. f b < f a) (x # y # take (descending_run lt y zs) zs)"
          using d by simp
        then have "sorted_wrt (\<lambda>a b. f b < f a) (take n xs)"
          using True by (simp add: n_def xs)
        from strict_desc_rev[OF this] show ?thesis using True by (simp add: front_def xs)
      next
        case False
        have a: "sorted (map f (y # take (ascending_run lt y zs) zs))"
          by (rule ascending_run_sorted[OF ag])
        have "f x \<le> f y" using False xy by simp
        then have "sorted (map f (x # y # take (ascending_run lt y zs) zs))"
          using a by auto
        then show ?thesis using False by (simp add: front_def n_def xs)
      qed
    qed
  qed
  then show "sorted (map f front)"
    and "filter (\<lambda>x. f x = c) front = filter (\<lambda>x. f x = c) (take n xs)" by simp_all
qed

text \<open>Where \<^verbatim>\<open><\<close> orders the keys as a linear order does, the sort is the stable ascending
  sort.\<close>

lemma short_sort_is_stable_sort:
  fixes f :: "'a \<Rightarrow> 'b::linorder"
  assumes "\<forall>x\<in>set xs. \<forall>y\<in>set xs. lt x y \<longleftrightarrow> f x < f y"
  shows "short_sort lt xs = sort_key f xs"
proof -
  let ?n = "fst (count_run lt xs)"
  let ?run = "if snd (count_run lt xs) then rev (take ?n xs) else take ?n xs"
  note fr = count_run_front[where f = f, OF assms]
  have set_run: "set ?run = set (take ?n xs)" by simp
  have "set (?run @ drop ?n xs) = set xs"
    unfolding set_append set_run by (metis append_take_drop_id set_append)
  then have ag: "\<forall>x\<in>set (?run @ drop ?n xs). \<forall>y\<in>set (?run @ drop ?n xs). lt x y \<longleftrightarrow> f x < f y"
    using assms by simp
  note bs = binarysort_stable_sorted[where f = f, OF ag fr(1)]
  have ls: "short_sort lt xs = binarysort lt ?run (drop ?n xs)"
    by (simp add: short_sort_def Let_def)
  have srt: "sorted (map f (short_sort lt xs))" using bs ls by simp
  have stab: "filter (\<lambda>x. f x = c) (short_sort lt xs) = filter (\<lambda>x. f x = c) xs" for c
  proof -
    have "filter (\<lambda>x. f x = c) (short_sort lt xs)
            = filter (\<lambda>x. f x = c) (take ?n xs) @ filter (\<lambda>x. f x = c) (drop ?n xs)"
      using bs ls fr(2)[of c] by simp
    also have "\<dots> = filter (\<lambda>x. f x = c) xs"
      by (metis append_take_drop_id filter_append)
    finally show ?thesis .
  qed
  show ?thesis
  proof (rule properties_for_sort_key[symmetric])
    show "mset (short_sort lt xs) = mset xs" by (rule mset_short_sort)
    show "\<And>k. k \<in> set (short_sort lt xs) \<Longrightarrow>
          filter (\<lambda>x. f k = f x) (short_sort lt xs) = filter (\<lambda>x. f k = f x) xs"
      using stab by (simp add: eq_commute)
    show "sorted (map f (short_sort lt xs))" by (rule srt)
  qed
qed

lemma list_sort_is_stable_sort:
  fixes f :: "'a \<Rightarrow> 'b::linorder"
  assumes "length xs < 64" and "\<forall>x\<in>set xs. \<forall>y\<in>set xs. lt x y \<longleftrightarrow> f x < f y"
  shows "list_sort merge lt xs = sort_key f xs"
  using short_sort_is_stable_sort[OF assms(2)] assms(1) by (simp add: list_sort_def)

section \<open>Properties of the report order and of the plot\<close>

lemma key_lt_agrees:
  assumes "nan_free cs"
  shows "\<forall>x\<in>set cs. \<forall>y\<in>set cs. key_lt x y \<longleftrightarrow> finite_key x < finite_key y"
  using assms
  by (auto simp: nan_free_def list_all_iff key_lt_def float_lt_def finite_key_def split: option.splits)

lemma write_entries_lines:
  "write_entries L es out = (out', err) \<Longrightarrow>
     \<exists>k lines. k \<le> length es \<and> list_all2 (\<lambda>e l. report_line L e = Inr l) (take k es) lines \<and>
       out' = out @ concat lines \<and> (err = None \<longrightarrow> k = length es) \<and>
       (err \<noteq> None \<longrightarrow> k < length es \<and> Inl (the err) = report_line L (es ! k))"
proof (induction es arbitrary: out)
  case Nil
  then show ?case by auto
next
  case (Cons e es)
  show ?case
  proof (cases "report_line L e")
    case (Inl x)
    then have "out' = out" "err = Some x" using Cons.prems by auto
    then show ?thesis using Inl by (intro exI[of _ 0] exI[of _ "[]"]) simp
  next
    case (Inr line)
    then have "write_entries L es (out @ line) = (out', err)" using Cons.prems by simp
    from Cons.IH[OF this] obtain k lines where
      k: "k \<le> length es" "list_all2 (\<lambda>e l. report_line L e = Inr l) (take k es) lines"
         "out' = (out @ line) @ concat lines" "err = None \<longrightarrow> k = length es"
         "err \<noteq> None \<longrightarrow> k < length es \<and> Inl (the err) = report_line L (es ! k)"
      by blast
    show ?thesis
      using k Inr by (intro exI[of _ "Suc k"] exI[of _ "line # lines"]) simp
  qed
qed

text \<open>
  When no recorded coefficient is \<^verbatim>\<open>NaN\<close>, a list of fewer than 64 results is sorted as
  line 116 means it to be: the sorted list is the stable ascending sort by coefficient.
\<close>

lemma sorted_CORRELATIONS_without_nan:
  assumes "length cs < 64" and "nan_free cs"
  shows "sorted_CORRELATIONS L cs = sort_key finite_key cs"
  unfolding sorted_CORRELATIONS_def
  by (rule list_sort_is_stable_sort[OF assms(1) key_lt_agrees[OF assms(2)]])

lemma report_line_Inr:
  "report_line L e = Inr line \<Longrightarrow>
     \<exists>q u. question e = Str q \<and> units e = Str u \<and> qstring e = Inr (q @ '' ('' @ u @ '')'')"
  by (auto simp: report_line_def qstring_def split: sum.splits cell.splits)

lemma write_report_first:
  assumes "write_report L (e # es) = (out, None)"
  shows "\<exists>line. report_line L e = Inr line"
  using assms by (auto simp: write_report_def split: sum.splits)

text \<open>
  When the report has been written to the end, the map is built from the first entry of
  the sorted list.  That entry is one of the recorded results, and among fewer than 64
  results none of which has the coefficient \<^verbatim>\<open>NaN\<close> none has a lower coefficient.
\<close>

lemma plot_of_first_sorted_entry:
  assumes "sorted_CORRELATIONS L cs = e # es"
    and "write_report L (sorted_CORRELATIONS L cs) = (out, None)"
  shows "\<exists>q u. question e = Str q \<and> units e = Str u \<and>
           shown (report_and_plot L cs) =
             Inr \<lparr>suptitle = q @ '' ('' @ u @ '')'', to_plot = sub_gdf e,
                  colour_column = ''DataValue'', xlim = (- 180, - 60), ylim = (20, 75)\<rparr> \<and>
           e \<in> set cs \<and>
           (length cs < 64 \<and> nan_free cs \<longrightarrow> (\<forall>e'\<in>set cs. finite_key e \<le> finite_key e'))"
proof -
  from write_report_first[OF assms(2)[unfolded assms(1)]] obtain line where
    "report_line L e = Inr line" by blast
  from report_line_Inr[OF this] obtain q u where
    qu: "question e = Str q" "units e = Str u" "qstring e = Inr (q @ '' ('' @ u @ '')'')"
    by blast
  have sh: "shown (report_and_plot L cs) =
             Inr \<lparr>suptitle = q @ '' ('' @ u @ '')'', to_plot = sub_gdf e,
                  colour_column = ''DataValue'', xlim = (- 180, - 60), ylim = (20, 75)\<rparr>"
    using assms qu(3) by (simp add: report_and_plot_def generate_plot_def)
  have "set (sorted_CORRELATIONS L cs) = set cs"
    unfolding sorted_CORRELATIONS_def using mset_list_sort by (metis mset_eq_setD)
  then have mem: "e \<in> set cs" using assms(1) by auto
  have low: "\<forall>e'\<in>set cs. finite_key e \<le> finite_key e'" if len: "length cs < 64" and nf: "nan_free cs"
  proof -
    have eq: "sort_key finite_key cs = e # es"
      using sorted_CORRELATIONS_without_nan[OF len nf, of L] assms(1) by simp
    have "sorted (map finite_key (e # es))" using sorted_sort_key[of finite_key cs] eq by simp
    moreover have "set (e # es) = set cs" using eq by (metis set_sort)
    ultimately show ?thesis by auto
  qed
  show ?thesis using qu(1,2) sh mem low by blast
qed


section \<open>Properties of the report lines\<close>

text \<open>
  C6, as the code has it.  The line of an entry whose question and unit are strings is the
  text \<^verbatim>\<open>question (unit)\<close>, followed by underscores up to a width of 200 when the text
  is shorter, followed at once by the text of the coefficient and a newline.  A text longer
  than 200 characters is written in full.  The text of the coefficient is that of the
  coefficient rounded to three decimals when its type is Python's \<^verbatim>\<open>float\<close>, and that of
  the coefficient itself otherwise.
\<close>

theorem report_line_layout:
  assumes "question e = Str q" and "units e = Str u"
  shows "report_line L e
           = Inr (format_200 (q @ '' ('' @ u @ '')'') @ coeff_text L (correlation e)) \<and>
         format_200 (q @ '' ('' @ u @ '')'')
           = q @ '' ('' @ u @ '')'' @ replicate (200 - (length q + length u + 3)) (CHR ''_'') \<and>
         length (format_200 (q @ '' ('' @ u @ '')'')) = max 200 (length q + length u + 3) \<and>
         coeff_text L (correlation e)
           = (case correlation e of
                PyFloat x \<Rightarrow> str_float L (round3 L x)
              | NpFloat x \<Rightarrow> str_float L x) @ [newline]"
  using assms
  by (cases "correlation e") (simp_all add: report_line_def qstring_def format_200_def)

text \<open>
  C6 as stated fails: the format gives a least width and no greatest, so nothing is
  truncated.  A question of 201 characters is written whole, and the field before the
  coefficient is 205 characters wide.
\<close>

theorem report_line_counterexample:
  "report_line
     \<lparr>parse_numeric = (\<lambda>s. None), corrcoef = pearson, merge_order = (\<lambda>lt n. [0..<n]), str_float = (\<lambda>x. ''nan''), round3 = (\<lambda>x. x)\<rparr>
     \<lparr>question = Str (replicate 201 (CHR ''q'')), units = Str ''u'',
      correlation = PyFloat None, sub_gdf = (\<lparr>index_len = 0, cols = []\<rparr> :: nat frame)\<rparr>
   = Inr (replicate 201 (CHR ''q'') @ '' (u)'' @ ''nan'' @ [newline])
   \<and> length (replicate 201 (CHR ''q'') @ '' (u)'') = 205"
  by (simp add: report_line_def qstring_def format_200_def)

theorem report_line_layout_witness:
  "question \<lparr>question = Str ''A'', units = Str ''u'', correlation = NpFloat (Some 1),
      sub_gdf = (\<lparr>index_len = 0, cols = []\<rparr> :: nat frame)\<rparr> = Str ''A''
   \<and> units \<lparr>question = Str ''A'', units = Str ''u'', correlation = NpFloat (Some 1),
      sub_gdf = (\<lparr>index_len = 0, cols = []\<rparr> :: nat frame)\<rparr> = Str ''u''
   \<and> report_line
       \<lparr>parse_numeric = (\<lambda>s. None), corrcoef = pearson, merge_order = (\<lambda>lt n. [0..<n]), str_float = (\<lambda>x. ''1.0''), round3 = (\<lambda>x. x)\<rparr>
       \<lparr>question = Str ''A'', units = Str ''u'', correlation = NpFloat (Some 1),
        sub_gdf = (\<lparr>index_len = 0, cols = []\<rparr> :: nat frame)\<rparr>
     = Inr (''A (u)'' @ replicate 195 (CHR ''_'') @ ''1.0'' @ [newline])
   \<and> length (''A (u)'' @ replicate 195 (CHR ''_'')) = 200"
proof -
  let ?e = "\<lparr>question = Str ''A'', units = Str ''u'', correlation = NpFloat (Some 1),
      sub_gdf = (\<lparr>index_len = 0, cols = []\<rparr> :: nat frame)\<rparr>"
  let ?L = "\<lparr>parse_numeric = (\<lambda>s. None), corrcoef = pearson, merge_order = (\<lambda>lt n. [0..<n]), str_float = (\<lambda>x. ''1.0''), round3 = (\<lambda>x. x)\<rparr>"
  have q: "question ?e = Str ''A''" and u: "units ?e = Str ''u''" by simp_all
  from report_line_layout[OF q u, of ?L] show ?thesis by simp
qed


lemma report_line_error: "report_line L e = Inl x \<Longrightarrow> x = TypeError"
  by (auto simp: report_line_def qstring_def split: sum.splits cell.splits prod.splits)

lemma write_entries_error: "write_entries L es out = (out', Some x) \<Longrightarrow> x = TypeError"
  by (induction es arbitrary: out) (auto split: sum.splits dest: report_line_error)

lemma generate_plot_error: "cs \<noteq> [] \<Longrightarrow> generate_plot cs \<noteq> Inl IndexError"
  by (auto simp: generate_plot_def qstring_def split: list.splits sum.splits cell.splits)

lemma sorted_CORRELATIONS_Nil: "sorted_CORRELATIONS L cs = [] \<longleftrightarrow> cs = []"
  unfolding sorted_CORRELATIONS_def using mset_list_sort[of "merge_order L" key_lt cs]
  by (metis mset_zero_iff)

text \<open>
  C9.  When the loop has recorded no result, the report is written (its two header lines
  only) and then \<^verbatim>\<open>CORRELATIONS[0]\<close> raises \<^verbatim>\<open>IndexError\<close>: the run ends with that
  error.  With at least one result recorded this error does not arise.
\<close>

theorem empty_results_abort_plot:
  "(CORRELATIONS L gdf = Inr [] \<longrightarrow>
      analyse L gdf = \<lparr>report_file = Some headline, shown = Inl IndexError\<rparr>) \<and>
   (\<forall>cs. CORRELATIONS L gdf = Inr cs \<and> cs \<noteq> [] \<longrightarrow> shown (analyse L gdf) \<noteq> Inl IndexError)"
proof (intro conjI allI impI)
  assume "CORRELATIONS L gdf = Inr []"
  moreover have "sorted_CORRELATIONS L ([] :: 'a entry list) = []"
    by (simp add: sorted_CORRELATIONS_Nil)
  ultimately show "analyse L gdf = \<lparr>report_file = Some headline, shown = Inl IndexError\<rparr>"
    by (simp add: analyse_def report_and_plot_def write_report_def generate_plot_def)
next
  fix cs assume a: "CORRELATIONS L gdf = Inr cs \<and> cs \<noteq> []"
  then have ne: "sorted_CORRELATIONS L cs \<noteq> []" by (simp add: sorted_CORRELATIONS_Nil)
  obtain out err where w: "write_report L (sorted_CORRELATIONS L cs) = (out, err)"
    by (cases "write_report L (sorted_CORRELATIONS L cs)")
  show "shown (analyse L gdf) \<noteq> Inl IndexError"
  proof (cases err)
    case None
    then show ?thesis using a w generate_plot_error[OF ne]
      by (simp add: analyse_def report_and_plot_def)
  next
    case (Some x)
    then have "x = TypeError" using w write_entries_error by (auto simp: write_report_def)
    then show ?thesis using a w Some by (simp add: analyse_def report_and_plot_def)
  qed
qed


section \<open>Properties of the loop over the questions\<close>


lemma select_rows_nth:
  "select_rows (map (\<lambda>i. p (st ! i)) rows) (map (\<lambda>i. vs ! i) rows)
     = map (\<lambda>i. vs ! i) (filter (\<lambda>i. p (st ! i)) rows)"
  by (induction rows) (simp_all add: select_rows_def)

lemma select_rows_column:
  assumes "length st = n" and "length vs = n"
  shows "select_rows (map p st) vs = map (\<lambda>i. vs ! i) (filter (\<lambda>i. p (st ! i)) [0..<n])"
proof -
  have "map p st = map (\<lambda>i. p (st ! i)) [0..<n]"
    using assms(1) by (intro nth_equalityI) simp_all
  moreover have "vs = map (\<lambda>i. vs ! i) [0..<n]" using assms(2) by (intro nth_equalityI) simp_all
  ultimately show ?thesis using select_rows_nth[of p st "[0..<n]" vs] by simp
qed

lemma get_col_loc_rows:
  "get_col (loc_rows h keep) c =
     (case get_col h c of Inl e \<Rightarrow> Inl e | Inr vs \<Rightarrow> Inr (select_rows keep vs))"
proof -
  have "map_of (map (\<lambda>cv. (fst cv, select_rows keep (snd cv))) xs) c
          = map_option (select_rows keep) (map_of xs c)" for xs :: "(string \<times> 'a cell list) list"
    by (induction xs) auto
  then show ?thesis by (simp add: get_col_def loc_rows_def split: option.splits)
qed

lemma get_attr_loc_rows:
  "get_attr (loc_rows h keep) c =
     (case get_attr h c of Inl e \<Rightarrow> Inl e | Inr vs \<Rightarrow> Inr (select_rows keep vs))"
proof -
  have "map_of (map (\<lambda>cv. (fst cv, select_rows keep (snd cv))) xs) c
          = map_option (select_rows keep) (map_of xs c)" for xs :: "(string \<times> 'a cell list) list"
    by (induction xs) auto
  then show ?thesis by (simp add: get_attr_def loc_rows_def split: option.splits)
qed

lemma get_attr_get_col: "get_attr h c = Inr vs \<longleftrightarrow> get_col h c = Inr vs"
  by (simp add: get_attr_def get_col_def split: option.splits)

lemma cell_at_col: "get_col h c = Inr vs \<Longrightarrow> cell_at h c i = vs ! i"
  by (auto simp: get_col_def cell_at_def split: option.splits)

lemma kept_rows_qualifying: "q \<noteq> NA \<Longrightarrow> kept_rows h q = qualifying_rows h q"
  by (auto simp: kept_rows_def qualifying_rows_def eq_scalar_def intro!: filter_cong)

lemma kept_rows_NA: "kept_rows h NA = []"
  by (simp add: kept_rows_def eq_scalar_def)

lemma two_selections:
  fixes q :: "'g cell" and h :: "'g frame"
  assumes wf: "wf_frame h"
    and qs: "get_col h ''Question'' = Inr qs"
    and st: "get_col h ''Stratification1'' = Inr st"
  defines "sub1 \<equiv> loc_rows h (map (\<lambda>c. eq_scalar c q) qs)"
  defines "st1 \<equiv> select_rows (map (\<lambda>c. eq_scalar c q) qs) st"
  defines "sub \<equiv> loc_rows sub1 (map (\<lambda>c. eq_scalar c (Str ''Overall'')) st1)"
  shows "get_col sub1 ''Stratification1'' = Inr st1"
    and "sub = rows_of h (kept_rows h q)"
proof -
  let ?n = "index_len h"
  let ?r1 = "filter (\<lambda>i. eq_scalar (qs ! i) q) [0..<?n]"
  have lq: "length qs = ?n" and ls: "length st = ?n"
    using wf qs st by (auto dest: get_col_length)
  show g1: "get_col sub1 ''Stratification1'' = Inr st1"
    by (simp add: sub1_def st1_def get_col_loc_rows st)
  have st1: "st1 = map (\<lambda>i. st ! i) ?r1"
    unfolding st1_def by (rule select_rows_column[OF lq ls])
  have k1: "map (\<lambda>c. eq_scalar c (Str ''Overall'')) st1
              = map (\<lambda>i. eq_scalar (st ! i) (Str ''Overall'')) ?r1"
    by (simp add: st1 comp_def)
  have kr: "kept_rows h q = filter (\<lambda>i. eq_scalar (st ! i) (Str ''Overall'')) ?r1"
    by (simp add: kept_rows_def cell_at_col[OF qs] cell_at_col[OF st])
  have col: "select_rows (map (\<lambda>c. eq_scalar c (Str ''Overall'')) st1)
               (select_rows (map (\<lambda>c. eq_scalar c q) qs) vs)
             = map (\<lambda>i. vs ! i) (kept_rows h q)" if "length vs = ?n" for vs :: "'g cell list"
  proof -
    have a: "select_rows (map (\<lambda>c. eq_scalar c q) qs) vs = map (\<lambda>i. vs ! i) ?r1"
      by (rule select_rows_column[OF lq that])
    show ?thesis unfolding k1 kr a
      by (rule select_rows_nth[where p = "\<lambda>c. eq_scalar c (Str ''Overall'')"])
  qed
  have len: "length (filter id (map (\<lambda>c. eq_scalar c (Str ''Overall'')) st1))
               = length (kept_rows h q)"
    unfolding k1 kr by (simp add: filter_map comp_def)
  have cols_eq: "map (\<lambda>cv. (fst cv, select_rows (map (\<lambda>c. eq_scalar c (Str ''Overall'')) st1)
                      (select_rows (map (\<lambda>c. eq_scalar c q) qs) (snd cv)))) (cols h)
        = map (\<lambda>cv. (fst cv, map (\<lambda>i. snd cv ! i) (kept_rows h q))) (cols h)"
    using wf by (auto simp: wf_frame_def list_all_iff col)
  have c1: "cols sub = map (\<lambda>cv. (fst cv, select_rows (map (\<lambda>c. eq_scalar c (Str ''Overall'')) st1)
                      (select_rows (map (\<lambda>c. eq_scalar c q) qs) (snd cv)))) (cols h)"
    by (simp add: sub_def sub1_def loc_rows_def comp_def)
  have i1: "index_len sub = length (filter id (map (\<lambda>c. eq_scalar c (Str ''Overall'')) st1))"
    by (simp add: sub_def loc_rows_def)
  have "sub = \<lparr>index_len = index_len sub, cols = cols sub\<rparr>" by simp
  also have "\<dots> = \<lparr>index_len = length (kept_rows h q),
                     cols = map (\<lambda>cv. (fst cv, map (\<lambda>i. snd cv ! i) (kept_rows h q))) (cols h)\<rparr>"
    unfolding c1 i1 len cols_eq ..
  also have "\<dots> = rows_of h (kept_rows h q)" by (simp only: rows_of_def)
  finally show "sub = rows_of h (kept_rows h q)" .
qed

lemma get_col_rows_of_case:
  "get_col (rows_of h rows) c =
     (case get_col h c of Inl e \<Rightarrow> Inl e | Inr vs \<Rightarrow> Inr (map (\<lambda>i. vs ! i) rows))"
proof -
  have "map_of (map (\<lambda>cv. (fst cv, map (\<lambda>i. snd cv ! i) rows)) xs) c
          = map_option (\<lambda>vs. map (\<lambda>i. vs ! i) rows) (map_of xs c)" for xs :: "(string \<times> 'a cell list) list"
    by (induction xs) auto
  then show ?thesis
    by (auto simp: get_col_def rows_of_def split: option.splits)
qed

lemma get_attr_rows_of_case:
  "get_attr (rows_of h rows) c =
     (case get_attr h c of Inl e \<Rightarrow> Inl e | Inr vs \<Rightarrow> Inr (map (\<lambda>i. vs ! i) rows))"
proof -
  have "map_of (map (\<lambda>cv. (fst cv, map (\<lambda>i. snd cv ! i) rows)) xs) c
          = map_option (\<lambda>vs. map (\<lambda>i. vs ! i) rows) (map_of xs c)" for xs :: "(string \<times> 'a cell list) list"
    by (induction xs) auto
  then show ?thesis
    by (auto simp: get_attr_def rows_of_def split: option.splits)
qed

lemma valid_values:
  assumes "get_col h ''DataValue'' = Inr dv" and "get_col h ''per_gop'' = Inr pg"
  shows "list_all numeric (map (\<lambda>i. dv ! i) rows) \<Longrightarrow> list_all numeric (map (\<lambda>i. pg ! i) rows) \<Longrightarrow>
         List.map_filter num_of
           (select_rows (map (\<lambda>ab. fst ab \<noteq> NA \<and> snd ab \<noteq> NA)
                           (zip (map (\<lambda>i. dv ! i) rows) (map (\<lambda>i. pg ! i) rows)))
              (map (\<lambda>i. dv ! i) rows))
           = map (value_at h ''DataValue'') (complete_rows h rows) \<and>
         List.map_filter num_of
           (select_rows (map (\<lambda>ab. fst ab \<noteq> NA \<and> snd ab \<noteq> NA)
                           (zip (map (\<lambda>i. dv ! i) rows) (map (\<lambda>i. pg ! i) rows)))
              (map (\<lambda>i. pg ! i) rows))
           = map (value_at h ''per_gop'') (complete_rows h rows)"
proof (induction rows)
  case Nil
  then show ?case by (simp add: select_rows_def complete_rows_def map_filter_simps)
next
  case (Cons i rows)
  then show ?case
    by (cases "dv ! i"; cases "pg ! i")
       (simp_all add: select_rows_def complete_rows_def value_at_def is_number_def
          map_filter_simps cell_at_col[OF assms(1)] cell_at_col[OF assms(2)])
qed

lemma series_corr_val:
  assumes "get_col h ''DataValue'' = Inr dv" and "get_col h ''per_gop'' = Inr pg"
    and "series_corr np_corrcoef (map (\<lambda>i. dv ! i) rows) (map (\<lambda>i. pg ! i) rows) = Inr c"
  shows "coeff_val c = pairwise_coefficient np_corrcoef h rows"
proof -
  have num: "list_all numeric (map (\<lambda>i. dv ! i) rows)" "list_all numeric (map (\<lambda>i. pg ! i) rows)"
    using assms(3) by (auto simp: series_corr_def split: if_splits)
  note vv = valid_values[OF assms(1,2) num]
  have "series_corr np_corrcoef (map (\<lambda>i. dv ! i) rows) (map (\<lambda>i. pg ! i) rows)
      = (if map (value_at h ''DataValue'') (complete_rows h rows) = [] then Inr (PyFloat None)
         else Inr (NpFloat (np_corrcoef (map (value_at h ''DataValue'') (complete_rows h rows))
                 (map (value_at h ''per_gop'') (complete_rows h rows)))))"
    unfolding series_corr_def Let_def using num vv by (simp add: less_Suc_eq_0_disj)
  then show ?thesis
    using assms(3) unfolding pairwise_coefficient_def Let_def by (auto split: if_splits)
qed

text \<open>What one pass of the loop body returns.\<close>

lemma process_question_result:
  assumes wf: "wf_frame gdf" and pq: "process_question L gdf q = Inr r"
  shows "\<exists>us c. get_col gdf ''DataValueUnit'' = Inr us \<and>
           coeff_val c = pairwise_coefficient (corrcoef L) gdf (kept_rows gdf q) \<and>
           r = (case mode (map (\<lambda>i. us ! i) (kept_rows gdf q)) of
                  [] \<Rightarrow> None
                | u # ms \<Rightarrow> Some \<lparr>question = q, units = u, correlation = c,
                                   sub_gdf = rows_of gdf (kept_rows gdf q)\<rparr>)"
proof -
  let ?rows = "kept_rows gdf q"
  from pq obtain qs where qs: "get_col gdf ''Question'' = Inr qs"
    by (auto simp: process_question_def split: sum.splits)
  let ?sub1 = "loc_rows gdf (map (\<lambda>c. eq_scalar c q) qs)"
  from pq qs obtain st1 where st1: "get_col ?sub1 ''Stratification1'' = Inr st1"
    by (auto simp: process_question_def Let_def split: sum.splits)
  then obtain st where st: "get_col gdf ''Stratification1'' = Inr st"
    by (auto simp: get_col_loc_rows split: sum.splits)
  note ts = two_selections[OF wf qs st, of q]
  have st1': "st1 = select_rows (map (\<lambda>c. eq_scalar c q) qs) st"
    using ts(1) st1 by simp
  let ?sub = "loc_rows ?sub1 (map (\<lambda>c. eq_scalar c (Str ''Overall'')) st1)"
  have sub: "?sub = rows_of gdf ?rows" using ts(2) unfolding st1' .
  from pq qs st1 obtain dv' pg' c us' where
    dv': "get_col ?sub ''DataValue'' = Inr dv'" and
    pg': "get_col ?sub ''per_gop'' = Inr pg'" and
    c: "series_corr (corrcoef L) dv' pg' = Inr c" and
    us': "get_attr ?sub ''DataValueUnit'' = Inr us'" and
    r: "r = (case mode us' of [] \<Rightarrow> None
             | u # ms \<Rightarrow> Some \<lparr>question = q, units = u, correlation = c, sub_gdf = ?sub\<rparr>)"
    by (auto simp: process_question_def Let_def split: sum.splits list.splits)
  from dv' obtain dv where dv: "get_col gdf ''DataValue'' = Inr dv" "dv' = map (\<lambda>i. dv ! i) ?rows"
    unfolding sub by (auto simp: get_col_rows_of_case split: sum.splits)
  from pg' obtain pg where pg: "get_col gdf ''per_gop'' = Inr pg" "pg' = map (\<lambda>i. pg ! i) ?rows"
    unfolding sub by (auto simp: get_col_rows_of_case split: sum.splits)
  from us' obtain us where us: "get_attr gdf ''DataValueUnit'' = Inr us" "us' = map (\<lambda>i. us ! i) ?rows"
    unfolding sub by (auto simp: get_attr_rows_of_case split: sum.splits)
  have cv: "coeff_val c = pairwise_coefficient (corrcoef L) gdf ?rows"
    using c unfolding dv(2) pg(2) by (rule series_corr_val[OF dv(1) pg(1)])
  have "get_col gdf ''DataValueUnit'' = Inr us" using us(1) by (simp add: get_attr_get_col)
  then show ?thesis using cv r unfolding sub us(2) by blast
qed

lemma set_unique: "set (unique xs) = set xs"
  by (induction xs rule: unique.induct) auto


lemma process_all_result:
  "process_all L gdf qs acc = Inr cs \<Longrightarrow>
     (\<forall>q\<in>set qs. \<exists>r. process_question L gdf q = Inr r) \<and>
     cs = acc @ concat (map (\<lambda>q. case process_question L gdf q of
                                    Inr (Some e) \<Rightarrow> [e] | _ \<Rightarrow> []) qs)"
proof (induction qs arbitrary: acc)
  case Nil
  then show ?case by simp
next
  case (Cons q qs)
  show ?case
  proof (cases "process_question L gdf q")
    case (Inl x)
    then show ?thesis using Cons.prems by simp
  next
    case (Inr r)
    show ?thesis
    proof (cases r)
      case None
      then have "process_all L gdf qs acc = Inr cs" using Cons.prems Inr by simp
      from Cons.IH[OF this] show ?thesis using Inr None by simp
    next
      case (Some e)
      then have "process_all L gdf qs (acc @ [e]) = Inr cs" using Cons.prems Inr by simp
      from Cons.IH[OF this] show ?thesis using Inr Some by simp
    qed
  qed
qed

lemma process_all_total:
  "\<forall>q\<in>set qs. \<exists>r. process_question L gdf q = Inr r \<Longrightarrow> \<exists>cs. process_all L gdf qs acc = Inr cs"
proof (induction qs arbitrary: acc)
  case Nil
  then show ?case by simp
next
  case (Cons q qs)
  then obtain r where r: "process_question L gdf q = Inr r" by auto
  show ?case using Cons r by (cases r) auto
qed

lemma process_question_question:
  "process_question L gdf q = Inr (Some e) \<Longrightarrow> question e = q"
  by (auto simp: process_question_def Let_def split: sum.splits list.splits)

lemma questions_of_results:
  assumes "process_all L gdf qs [] = Inr cs"
  shows "map question cs = filter (\<lambda>q. \<exists>e. process_question L gdf q = Inr (Some e)) qs"
proof -
  have "map question (concat (map (\<lambda>q. case process_question L gdf q of
                                    Inr (Some e) \<Rightarrow> [e] | _ \<Rightarrow> []) qs))
          = filter (\<lambda>q. \<exists>e. process_question L gdf q = Inr (Some e)) qs"
    by (induction qs) (auto split: sum.splits option.splits dest: process_question_question)
  then show ?thesis using process_all_result[OF assms] by simp
qed

lemma fold_max_ge: "(m::nat) \<le> fold max xs m"
proof (induction xs arbitrary: m)
  case Nil
  then show ?case by simp
next
  case (Cons a xs)
  have "m \<le> max a m" by simp
  also have "\<dots> \<le> fold max xs (max a m)" by (rule Cons.IH)
  finally show ?case by simp
qed

lemma fold_max_mem: "fold max xs (m::nat) = m \<or> fold max xs m \<in> set xs"
proof (induction xs arbitrary: m)
  case Nil
  then show ?case by simp
next
  case (Cons x xs)
  show ?case using Cons[of "max x m"] by (auto simp: max_def split: if_splits)
qed

lemma fold_max_upper: "x \<in> set xs \<Longrightarrow> (x::nat) \<le> fold max xs m"
proof (induction xs arbitrary: m)
  case Nil
  then show ?case by simp
next
  case (Cons a xs)
  show ?case
  proof (cases "x = a")
    case True
    have "max a m \<le> fold max xs (max a m)" by (rule fold_max_ge)
    then show ?thesis using True by simp
  next
    case False
    then show ?thesis using Cons by simp
  qed
qed

lemma length_map_filter_all:
  "list_all (\<lambda>c. f c \<noteq> None) ms \<Longrightarrow> length (List.map_filter f ms) = length ms"
  by (induction ms) (auto simp: map_filter_simps)

lemma sort_nums_Nil: "sort_nums ns = [] \<longleftrightarrow> ns = []"
proof
  assume e: "sort_nums ns = []"
  show "ns = []"
  proof (cases ns)
    case Nil
    then show ?thesis .
  next
    case (Cons x xs)
    then have "sort_nums ns \<noteq> []"
      by (cases x) (auto simp: sort_nums_def map_filter_simps)
    then show ?thesis using e by simp
  qed
next
  assume "ns = []"
  then show "sort_nums ns = []" by (simp add: sort_nums_def map_filter_simps)
qed

lemma sort_cells_Nil: "sort_cells ms = [] \<longleftrightarrow> ms = []"
proof (cases "list_all (\<lambda>c. str_of c \<noteq> None) ms")
  case True
  have "sort_cells ms = [] \<longleftrightarrow> length (sort (List.map_filter str_of ms)) = 0"
    using True by (simp add: sort_cells_def del: length_sort)
  also have "\<dots> \<longleftrightarrow> length ms = 0"
    using length_map_filter_all[OF True] by simp
  finally show ?thesis by simp
next
  case False
  show ?thesis
  proof (cases "list_all (\<lambda>c. num_of c \<noteq> None) ms")
    case True
    have "sort_cells ms = [] \<longleftrightarrow> length (List.map_filter num_of ms) = 0"
      using True False by (simp add: sort_cells_def sort_nums_Nil)
    also have "\<dots> \<longleftrightarrow> length ms = 0"
      using length_map_filter_all[OF True] by simp
    finally show ?thesis by simp
  next
    case n: False
    then show ?thesis using False by (simp add: sort_cells_def)
  qed
qed

lemma mode_Nil: "mode vs = [] \<longleftrightarrow> (\<forall>c\<in>set vs. c = NA)"
proof -
  let ?present = "filter (\<lambda>c. c \<noteq> NA) vs"
  let ?top = "fold max (map (\<lambda>v. count_of v ?present) ?present) 0"
  have m: "mode vs = [] \<longleftrightarrow> filter (\<lambda>v. count_of v ?present = ?top) (unique ?present) = []"
    by (simp add: mode_def Let_def sort_cells_Nil)
  show ?thesis
  proof (cases "?present = []")
    case True
    then have "\<forall>c\<in>set vs. c = NA" by (auto simp: filter_empty_conv)
    moreover have "mode vs = []" using True m by simp
    ultimately show ?thesis by simp
  next
    case False
    then obtain v where v: "v \<in> set ?present" by (meson last_in_set)
    then have "count_of v ?present \<noteq> 0"
      by (auto simp: count_of_def filter_empty_conv)
    moreover have "count_of v ?present \<le> ?top"
      by (rule fold_max_upper) (use v in auto)
    ultimately have "?top \<noteq> 0" by simp
    then have "?top \<in> set (map (\<lambda>v. count_of v ?present) ?present)"
      using fold_max_mem[of "map (\<lambda>v. count_of v ?present) ?present" 0] by auto
    then obtain w where "w \<in> set ?present" "count_of w ?present = ?top" by auto
    then have "w \<in> set (filter (\<lambda>v. count_of v ?present = ?top) (unique ?present))"
      by (simp add: set_unique)
    then have "mode vs \<noteq> []" using m by (metis empty_iff list.set(1))
    moreover have "\<not> (\<forall>c\<in>set vs. c = NA)" using v by auto
    ultimately show ?thesis by simp
  qed
qed




lemma analysable_col:
  assumes "analysable h"
    and "c \<in> {''Question'', ''Stratification1'', ''DataValue'', ''per_gop'', ''DataValueUnit''}"
  shows "\<exists>vs. get_col h c = Inr vs \<and> length vs = index_len h"
proof -
  have "c \<in> set (col_names h)" using assms by (auto simp: analysable_def)
  then have "map_of (cols h) c \<noteq> None"
    by (simp add: col_names_def map_of_eq_None_iff)
  then obtain vs where "get_col h c = Inr vs" by (auto simp: get_col_def)
  moreover have "wf_frame h" using assms(1) by (simp add: analysable_def)
  ultimately show ?thesis using get_col_length by blast
qed

lemma analysable_numeric:
  assumes "analysable h" and "c \<in> {''DataValue'', ''per_gop''}" and "get_col h c = Inr vs"
  shows "list_all numeric vs"
proof -
  have "(c, vs) \<in> set (cols h)"
    using assms(3) by (auto simp: get_col_def split: option.splits dest: map_of_SomeD)
  then show ?thesis using assms(1,2) by (auto simp: analysable_def list_all_iff)
qed

lemma numeric_rows: "list_all numeric vs \<Longrightarrow> \<forall>i\<in>set rows. i < length vs \<Longrightarrow>
    list_all numeric (map (\<lambda>i. vs ! i) rows)"
  by (auto simp: list_all_iff)

lemma kept_rows_bound: "\<forall>i\<in>set (kept_rows h q). i < index_len h"
  by (auto simp: kept_rows_def)

lemma series_corr_total:
  "list_all numeric a \<Longrightarrow> list_all numeric b \<Longrightarrow> \<exists>c. series_corr np_corrcoef a b = Inr c"
  by (simp add: series_corr_def Let_def)

lemma process_question_total:
  assumes "analysable gdf"
  shows "\<exists>r. process_question L gdf q = Inr r"
proof -
  have wf: "wf_frame gdf" using assms by (simp add: analysable_def)
  from analysable_col[OF assms] obtain qs st dv pg us where
    c: "get_col gdf ''Question'' = Inr qs" "get_col gdf ''Stratification1'' = Inr st"
       "get_col gdf ''DataValue'' = Inr dv" "get_col gdf ''per_gop'' = Inr pg"
       "get_col gdf ''DataValueUnit'' = Inr us"
    and l: "length dv = index_len gdf" "length pg = index_len gdf"
    by (metis insertCI)
  note ts = two_selections[OF wf c(1,2), of q]
  let ?rows = "kept_rows gdf q"
  let ?sub = "rows_of gdf ?rows"
  have n: "list_all numeric (map (\<lambda>i. dv ! i) ?rows)" "list_all numeric (map (\<lambda>i. pg ! i) ?rows)"
    using analysable_numeric[OF assms _ c(3)] analysable_numeric[OF assms _ c(4)]
      kept_rows_bound[of gdf q] l by (auto intro!: numeric_rows)
  from series_corr_total[OF n] obtain co where
    co: "series_corr (corrcoef L) (map (\<lambda>i. dv ! i) ?rows) (map (\<lambda>i. pg ! i) ?rows) = Inr co" by blast
  have ga: "get_attr ?sub ''DataValueUnit'' = Inr (map (\<lambda>i. us ! i) ?rows)"
    using c(5) by (simp add: get_attr_rows_of_case get_attr_get_col[symmetric])
  show ?thesis
    unfolding process_question_def Let_def c(1) sum.case ts(1) ts(2)
    by (simp add: get_col_rows_of_case c co ga split: list.splits)
qed

lemma process_question_no_units:
  assumes an: "analysable gdf"
    and nu: "\<forall>i\<in>set (qualifying_rows gdf q). cell_at gdf ''DataValueUnit'' i = NA"
  shows "process_question L gdf q = Inr None"
proof -
  have wf: "wf_frame gdf" using an by (simp add: analysable_def)
  from process_question_total[OF an] obtain r where r: "process_question L gdf q = Inr r" by blast
  from process_question_result[OF wf r] obtain us c where
    us: "get_col gdf ''DataValueUnit'' = Inr us" and
    r': "r = (case mode (map (\<lambda>i. us ! i) (kept_rows gdf q)) of
                  [] \<Rightarrow> None
                | u # ms \<Rightarrow> Some \<lparr>question = q, units = u, correlation = c,
                                   sub_gdf = rows_of gdf (kept_rows gdf q)\<rparr>)"
    by blast
  have "mode (map (\<lambda>i. us ! i) (kept_rows gdf q)) = []"
  proof (cases "q = NA")
    case True
    then show ?thesis by (simp add: kept_rows_NA mode_Nil)
  next
    case False
    then have "kept_rows gdf q = qualifying_rows gdf q" by (rule kept_rows_qualifying)
    then show ?thesis using nu by (simp add: mode_Nil cell_at_col[OF us])
  qed
  then show ?thesis using r r' by simp
qed

lemma process_question_units:
  assumes an: "analysable gdf" and qn: "q \<noteq> NA"
    and u: "\<exists>i\<in>set (qualifying_rows gdf q). cell_at gdf ''DataValueUnit'' i \<noteq> NA"
  shows "\<exists>e. process_question L gdf q = Inr (Some e)"
proof -
  have wf: "wf_frame gdf" using an by (simp add: analysable_def)
  from process_question_total[OF an] obtain r where r: "process_question L gdf q = Inr r" by blast
  from process_question_result[OF wf r] obtain us c where
    us: "get_col gdf ''DataValueUnit'' = Inr us" and
    r': "r = (case mode (map (\<lambda>i. us ! i) (kept_rows gdf q)) of
                  [] \<Rightarrow> None
                | u # ms \<Rightarrow> Some \<lparr>question = q, units = u, correlation = c,
                                   sub_gdf = rows_of gdf (kept_rows gdf q)\<rparr>)"
    by blast
  have "kept_rows gdf q = qualifying_rows gdf q" using qn by (rule kept_rows_qualifying)
  then have "mode (map (\<lambda>i. us ! i) (kept_rows gdf q)) \<noteq> []"
    using u by (auto simp: mode_Nil cell_at_col[OF us])
  then show ?thesis using r r' by (auto split: list.splits)
qed

lemma list_all2_and_left:
  "list_all2 P xs ys \<Longrightarrow> \<forall>x\<in>set xs. Q x \<Longrightarrow> list_all2 (\<lambda>x y. P x y \<and> Q x) xs ys"
  by (induction rule: list_all2_induct) auto

lemma report_file_written:
  "\<exists>out k lines. report_file (report_and_plot L cs) = Some out \<and> out = headline @ concat lines \<and>
     list_all2 (\<lambda>e l. report_line L e = Inr l \<and> e \<in> set cs) (take k (sorted_CORRELATIONS L cs)) lines"
proof -
  obtain out err where w: "write_report L (sorted_CORRELATIONS L cs) = (out, err)"
    by (cases "write_report L (sorted_CORRELATIONS L cs)")
  from write_entries_lines[OF w[unfolded write_report_def]] obtain k lines where
    kl: "list_all2 (\<lambda>e l. report_line L e = Inr l) (take k (sorted_CORRELATIONS L cs)) lines"
        "out = headline @ concat lines"
    by blast
  have "set (sorted_CORRELATIONS L cs) = set cs"
    unfolding sorted_CORRELATIONS_def using mset_list_sort by (metis mset_eq_setD)
  then have mem: "\<forall>e\<in>set (take k (sorted_CORRELATIONS L cs)). e \<in> set cs"
    by (auto dest: in_set_takeD)
  have "list_all2 (\<lambda>e l. report_line L e = Inr l \<and> e \<in> set cs)
               (take k (sorted_CORRELATIONS L cs)) lines"
    by (rule list_all2_and_left[OF kl(1) mem])
  moreover have "report_file (report_and_plot L cs) = Some out"
    using w by (cases err) (simp_all add: report_and_plot_def)
  ultimately show ?thesis using kl(2) by blast
qed

text \<open>Line 131 raises \<^verbatim>\<open>IndexError\<close> exactly when the loop has recorded nothing.\<close>

lemma plot_index_error:
  "shown (report_and_plot L cs) = Inl IndexError \<longleftrightarrow> cs = []"
proof (cases "cs = []")
  case True
  then have "sorted_CORRELATIONS L cs = []" by (simp add: sorted_CORRELATIONS_Nil)
  then show ?thesis using True
    by (simp add: report_and_plot_def write_report_def generate_plot_def)
next
  case False
  then have ne: "sorted_CORRELATIONS L cs \<noteq> []" by (simp add: sorted_CORRELATIONS_Nil)
  obtain out err where w: "write_report L (sorted_CORRELATIONS L cs) = (out, err)"
    by (cases "write_report L (sorted_CORRELATIONS L cs)")
  have "shown (report_and_plot L cs) \<noteq> Inl IndexError"
  proof (cases err)
    case None
    then show ?thesis using w generate_plot_error[OF ne] by (simp add: report_and_plot_def)
  next
    case (Some x)
    then have "x = TypeError" using w write_entries_error by (auto simp: write_report_def)
    then show ?thesis using w Some by (simp add: report_and_plot_def)
  qed
  then show ?thesis using False by simp
qed

text \<open>
  C8 as stated fails where it says that the exclusion does not abort the run.  In a table
  whose one question has a single qualifying row, without a unit of measure, the question
  is skipped, nothing is recorded, the report is written with its header only, and line
  131 then raises \<^verbatim>\<open>IndexError\<close>: the run is aborted.
\<close>

theorem skipped_question_aborts_counterexample:
  "analysable (\<lparr>index_len = 1, cols =
      [(''Question'', [Str ''Q1'']), (''Stratification1'', [Str ''Overall'']),
       (''DataValue'', [Num (Fin 10)]), (''DataValueUnit'', [NA]),
       (''per_gop'', [Num (Fin 40)])]\<rparr> :: nat frame)
   \<and> qualifying_rows (\<lparr>index_len = 1, cols =
      [(''Question'', [Str ''Q1'']), (''Stratification1'', [Str ''Overall'']),
       (''DataValue'', [Num (Fin 10)]), (''DataValueUnit'', [NA]),
       (''per_gop'', [Num (Fin 40)])]\<rparr> :: nat frame) (Str ''Q1'') = [0]
   \<and> cell_at (\<lparr>index_len = 1, cols =
      [(''Question'', [Str ''Q1'']), (''Stratification1'', [Str ''Overall'']),
       (''DataValue'', [Num (Fin 10)]), (''DataValueUnit'', [NA]),
       (''per_gop'', [Num (Fin 40)])]\<rparr> :: nat frame) ''DataValueUnit'' 0 = NA
   \<and> CORRELATIONS exact_lib (\<lparr>index_len = 1, cols =
      [(''Question'', [Str ''Q1'']), (''Stratification1'', [Str ''Overall'']),
       (''DataValue'', [Num (Fin 10)]), (''DataValueUnit'', [NA]),
       (''per_gop'', [Num (Fin 40)])]\<rparr> :: nat frame) = Inr []
   \<and> analyse exact_lib (\<lparr>index_len = 1, cols =
      [(''Question'', [Str ''Q1'']), (''Stratification1'', [Str ''Overall'']),
       (''DataValue'', [Num (Fin 10)]), (''DataValueUnit'', [NA]),
       (''per_gop'', [Num (Fin 40)])]\<rparr> :: nat frame)
       = \<lparr>report_file = Some headline, shown = Inl IndexError\<rparr>"
  by (simp add: analysable_def wf_frame_def col_names_def qualifying_rows_def cell_at_def
        analyse_def report_and_plot_def write_report_def generate_plot_def
        sorted_CORRELATIONS_def list_sort_def short_sort_def exact_lib_def
        CORRELATIONS_def QUESTIONS_def process_question_def get_attr_def get_col_def
        loc_rows_def select_rows_def eq_scalar_def series_corr_def mode_def sort_cells_def
        sort_nums_def count_of_def map_filter_simps Let_def)

text \<open>
  C8, as the code has it.  On a table the loop can run on, a question none of whose qualifying rows
  has a unit of measure gets no result: the loop ends without error, no recorded result is
  that question's, every other question that has a unit among its qualifying rows is
  recorded, and every line of the report written is the line of a recorded result of
  another question.  The run is then aborted by the \<^verbatim>\<open>IndexError\<close> of line 131 exactly
  when no question at all has been recorded.
\<close>

theorem question_without_units_is_skipped:
  assumes an: "analysable gdf" and qs: "get_col gdf ''Question'' = Inr qs" and q: "q \<in> set qs"
    and nu: "\<forall>i\<in>set (qualifying_rows gdf q). cell_at gdf ''DataValueUnit'' i = NA"
  shows "\<exists>cs. CORRELATIONS L gdf = Inr cs \<and>
           (\<forall>e\<in>set cs. question e \<noteq> q) \<and>
           (\<forall>q'\<in>set qs. q' \<noteq> NA \<and>
                (\<exists>i\<in>set (qualifying_rows gdf q'). cell_at gdf ''DataValueUnit'' i \<noteq> NA) \<longrightarrow>
                (\<exists>e\<in>set cs. question e = q')) \<and>
           (\<exists>out k lines. report_file (analyse L gdf) = Some out \<and> out = headline @ concat lines \<and>
              list_all2 (\<lambda>e l. report_line L e = Inr l \<and> question e \<noteq> q)
                (take k (sorted_CORRELATIONS L cs)) lines) \<and>
           (shown (analyse L gdf) = Inl IndexError \<longleftrightarrow> cs = [])"
proof -
  have ga: "get_attr gdf ''Question'' = Inr qs" using qs by (simp add: get_attr_get_col)
  from process_all_total[of "unique qs" L gdf "[]"] process_question_total[OF an]
  obtain cs where pa: "process_all L gdf (unique qs) [] = Inr cs" by blast
  have cs: "CORRELATIONS L gdf = Inr cs" using ga pa by (simp add: CORRELATIONS_def QUESTIONS_def)
  note mq = questions_of_results[OF pa]
  have none: "\<forall>e\<in>set cs. question e \<noteq> q"
  proof
    fix e assume "e \<in> set cs"
    then have "question e \<in> set (map question cs)" by simp
    then have "\<exists>e'. process_question L gdf (question e) = Inr (Some e')" unfolding mq by simp
    then show "question e \<noteq> q" using process_question_no_units[OF an nu] by auto
  qed
  have others: "\<forall>q'\<in>set qs. q' \<noteq> NA \<and>
                (\<exists>i\<in>set (qualifying_rows gdf q'). cell_at gdf ''DataValueUnit'' i \<noteq> NA) \<longrightarrow>
                (\<exists>e\<in>set cs. question e = q')"
  proof (intro ballI impI)
    fix q' assume q': "q' \<in> set qs"
      and h: "q' \<noteq> NA \<and> (\<exists>i\<in>set (qualifying_rows gdf q'). cell_at gdf ''DataValueUnit'' i \<noteq> NA)"
    then have "\<exists>e. process_question L gdf q' = Inr (Some e)"
      using process_question_units[OF an] by blast
    then have "q' \<in> set (map question cs)" unfolding mq using q' by (simp add: set_unique)
    then show "\<exists>e\<in>set cs. question e = q'" by auto
  qed
  from report_file_written[of L cs] obtain out k lines where
    rf: "report_file (report_and_plot L cs) = Some out" "out = headline @ concat lines"
        "list_all2 (\<lambda>e l. report_line L e = Inr l \<and> e \<in> set cs) (take k (sorted_CORRELATIONS L cs)) lines"
    by blast
  have "list_all2 (\<lambda>e l. report_line L e = Inr l \<and> question e \<noteq> q)
          (take k (sorted_CORRELATIONS L cs)) lines"
    using rf(3) none by (auto elim!: list_all2_mono)
  moreover have "report_file (analyse L gdf) = Some out" using cs rf(1) by (simp add: analyse_def)
  moreover have "shown (analyse L gdf) = Inl IndexError \<longleftrightarrow> cs = []"
    using cs plot_index_error[of L cs] by (simp add: analyse_def)
  ultimately show ?thesis using cs none others rf(2) by blast
qed

text \<open>Unfolding the loop on a concrete table.\<close>

lemmas eval_defs = CORRELATIONS_def QUESTIONS_def process_question_def get_attr_def get_col_def
  loc_rows_def select_rows_def eq_scalar_def series_corr_def mode_def sort_cells_def sort_nums_def
  count_of_def
  map_filter_simps Let_def


lemma pearson_rising:
  "pearson [Fin 10, Fin 20, Fin 30, Fin 40] [Fin 30, Fin 40, Fin 50, Fin 60] = Some 1"
  by (simp add: pearson_def real_values_def mean_def map_filter_simps Let_def)

lemma pearson_falling:
  "pearson [Fin 10, Fin 20, Fin 30, Fin 40] [Fin 60, Fin 50, Fin 40, Fin 30] = Some (- 1)"
  by (simp add: pearson_def real_values_def mean_def map_filter_simps Let_def)




theorem question_without_units_is_skipped_witness:
  "analysable (\<lparr>index_len = 7, cols =
      [(''Question'', [Str ''Q1'', Str ''Q1'', Str ''Q2'', Str ''Q1'', Str ''Q1'', Str ''Q1'', Str ''Q1'']),
       (''Stratification1'', [Str ''Overall'', Str ''Overall'', Str ''Overall'', Str ''Male'',
          Str ''Overall'', Str ''Overall'', Str ''Overall'']),
       (''DataValue'', [Num (Fin 10), NA, Num (Fin 5), Num (Fin 99), Num (Fin 30), Num (Fin 40),
          Num (Fin 50)]),
       (''DataValueUnit'', [Str ''%'', Str ''%'', NA, Str ''%'', Str ''Number'', Str ''%'', NA]),
       (''per_gop'', [Num (Fin 40), Num (Fin 40), Num (Fin 70), Num (Fin 70), Num (Fin 70),
          Num (Fin 70), Num (Fin 55)])]\<rparr> :: nat frame)
   \<and> get_col (\<lparr>index_len = 7, cols =
      [(''Question'', [Str ''Q1'', Str ''Q1'', Str ''Q2'', Str ''Q1'', Str ''Q1'', Str ''Q1'', Str ''Q1'']),
       (''Stratification1'', [Str ''Overall'', Str ''Overall'', Str ''Overall'', Str ''Male'',
          Str ''Overall'', Str ''Overall'', Str ''Overall'']),
       (''DataValue'', [Num (Fin 10), NA, Num (Fin 5), Num (Fin 99), Num (Fin 30), Num (Fin 40),
          Num (Fin 50)]),
       (''DataValueUnit'', [Str ''%'', Str ''%'', NA, Str ''%'', Str ''Number'', Str ''%'', NA]),
       (''per_gop'', [Num (Fin 40), Num (Fin 40), Num (Fin 70), Num (Fin 70), Num (Fin 70),
          Num (Fin 70), Num (Fin 55)])]\<rparr> :: nat frame) ''Question''
       = Inr [Str ''Q1'', Str ''Q1'', Str ''Q2'', Str ''Q1'', Str ''Q1'', Str ''Q1'', Str ''Q1'']
   \<and> Str ''Q2'' \<in> set [Str ''Q1'', Str ''Q1'', Str ''Q2'', Str ''Q1'', Str ''Q1'', Str ''Q1'', Str ''Q1'' :: nat cell]
   \<and> qualifying_rows (\<lparr>index_len = 7, cols =
      [(''Question'', [Str ''Q1'', Str ''Q1'', Str ''Q2'', Str ''Q1'', Str ''Q1'', Str ''Q1'', Str ''Q1'']),
       (''Stratification1'', [Str ''Overall'', Str ''Overall'', Str ''Overall'', Str ''Male'',
          Str ''Overall'', Str ''Overall'', Str ''Overall'']),
       (''DataValue'', [Num (Fin 10), NA, Num (Fin 5), Num (Fin 99), Num (Fin 30), Num (Fin 40),
          Num (Fin 50)]),
       (''DataValueUnit'', [Str ''%'', Str ''%'', NA, Str ''%'', Str ''Number'', Str ''%'', NA]),
       (''per_gop'', [Num (Fin 40), Num (Fin 40), Num (Fin 70), Num (Fin 70), Num (Fin 70),
          Num (Fin 70), Num (Fin 55)])]\<rparr> :: nat frame) (Str ''Q2'') = [2]
   \<and> cell_at (\<lparr>index_len = 7, cols =
      [(''Question'', [Str ''Q1'', Str ''Q1'', Str ''Q2'', Str ''Q1'', Str ''Q1'', Str ''Q1'', Str ''Q1'']),
       (''Stratification1'', [Str ''Overall'', Str ''Overall'', Str ''Overall'', Str ''Male'',
          Str ''Overall'', Str ''Overall'', Str ''Overall'']),
       (''DataValue'', [Num (Fin 10), NA, Num (Fin 5), Num (Fin 99), Num (Fin 30), Num (Fin 40),
          Num (Fin 50)]),
       (''DataValueUnit'', [Str ''%'', Str ''%'', NA, Str ''%'', Str ''Number'', Str ''%'', NA]),
       (''per_gop'', [Num (Fin 40), Num (Fin 40), Num (Fin 70), Num (Fin 70), Num (Fin 70),
          Num (Fin 70), Num (Fin 55)])]\<rparr> :: nat frame) ''DataValueUnit'' 2 = NA
   \<and> (\<exists>cs. CORRELATIONS \<lparr>parse_numeric = (\<lambda>s. None), corrcoef = pearson, merge_order = (\<lambda>lt n. [0..<n]), str_float = (\<lambda>x. ''0.65''), round3 = (\<lambda>x. x)\<rparr> (\<lparr>index_len = 7, cols =
      [(''Question'', [Str ''Q1'', Str ''Q1'', Str ''Q2'', Str ''Q1'', Str ''Q1'', Str ''Q1'', Str ''Q1'']),
       (''Stratification1'', [Str ''Overall'', Str ''Overall'', Str ''Overall'', Str ''Male'',
          Str ''Overall'', Str ''Overall'', Str ''Overall'']),
       (''DataValue'', [Num (Fin 10), NA, Num (Fin 5), Num (Fin 99), Num (Fin 30), Num (Fin 40),
          Num (Fin 50)]),
       (''DataValueUnit'', [Str ''%'', Str ''%'', NA, Str ''%'', Str ''Number'', Str ''%'', NA]),
       (''per_gop'', [Num (Fin 40), Num (Fin 40), Num (Fin 70), Num (Fin 70), Num (Fin 70),
          Num (Fin 70), Num (Fin 55)])]\<rparr> :: nat frame) = Inr cs \<and> cs = [\<lparr>question = Str ''Q1'', units = Str ''%'',
        correlation = NpFloat (pearson [Fin 10, Fin 30, Fin 40, Fin 50] [Fin 40, Fin 70, Fin 70, Fin 55]),
        sub_gdf = (\<lparr>index_len = 5, cols =
          [(''Question'', [Str ''Q1'', Str ''Q1'', Str ''Q1'', Str ''Q1'', Str ''Q1'']),
           (''Stratification1'', [Str ''Overall'', Str ''Overall'', Str ''Overall'', Str ''Overall'',
              Str ''Overall'']),
           (''DataValue'', [Num (Fin 10), NA, Num (Fin 30), Num (Fin 40), Num (Fin 50)]),
           (''DataValueUnit'', [Str ''%'', Str ''%'', Str ''Number'', Str ''%'', NA]),
           (''per_gop'', [Num (Fin 40), Num (Fin 40), Num (Fin 70), Num (Fin 70), Num (Fin 55)])]\<rparr>
          :: nat frame)\<rparr>] \<and> (\<forall>e\<in>set cs. question e \<noteq> Str ''Q2''))
   \<and> report_file (analyse \<lparr>parse_numeric = (\<lambda>s. None), corrcoef = pearson, merge_order = (\<lambda>lt n. [0..<n]), str_float = (\<lambda>x. ''0.65''), round3 = (\<lambda>x. x)\<rparr> (\<lparr>index_len = 7, cols =
      [(''Question'', [Str ''Q1'', Str ''Q1'', Str ''Q2'', Str ''Q1'', Str ''Q1'', Str ''Q1'', Str ''Q1'']),
       (''Stratification1'', [Str ''Overall'', Str ''Overall'', Str ''Overall'', Str ''Male'',
          Str ''Overall'', Str ''Overall'', Str ''Overall'']),
       (''DataValue'', [Num (Fin 10), NA, Num (Fin 5), Num (Fin 99), Num (Fin 30), Num (Fin 40),
          Num (Fin 50)]),
       (''DataValueUnit'', [Str ''%'', Str ''%'', NA, Str ''%'', Str ''Number'', Str ''%'', NA]),
       (''per_gop'', [Num (Fin 40), Num (Fin 40), Num (Fin 70), Num (Fin 70), Num (Fin 70),
          Num (Fin 70), Num (Fin 55)])]\<rparr> :: nat frame))
       = Some (headline @ format_200 ''Q1 (%)'' @ ''0.65'' @ [newline])
   \<and> shown (analyse \<lparr>parse_numeric = (\<lambda>s. None), corrcoef = pearson, merge_order = (\<lambda>lt n. [0..<n]), str_float = (\<lambda>x. ''0.65''), round3 = (\<lambda>x. x)\<rparr> (\<lparr>index_len = 7, cols =
      [(''Question'', [Str ''Q1'', Str ''Q1'', Str ''Q2'', Str ''Q1'', Str ''Q1'', Str ''Q1'', Str ''Q1'']),
       (''Stratification1'', [Str ''Overall'', Str ''Overall'', Str ''Overall'', Str ''Male'',
          Str ''Overall'', Str ''Overall'', Str ''Overall'']),
       (''DataValue'', [Num (Fin 10), NA, Num (Fin 5), Num (Fin 99), Num (Fin 30), Num (Fin 40),
          Num (Fin 50)]),
       (''DataValueUnit'', [Str ''%'', Str ''%'', NA, Str ''%'', Str ''Number'', Str ''%'', NA]),
       (''per_gop'', [Num (Fin 40), Num (Fin 40), Num (Fin 70), Num (Fin 70), Num (Fin 70),
          Num (Fin 70), Num (Fin 55)])]\<rparr> :: nat frame)) \<noteq> Inl IndexError"
proof -
  let ?G = "(\<lparr>index_len = 7, cols =
      [(''Question'', [Str ''Q1'', Str ''Q1'', Str ''Q2'', Str ''Q1'', Str ''Q1'', Str ''Q1'', Str ''Q1'']),
       (''Stratification1'', [Str ''Overall'', Str ''Overall'', Str ''Overall'', Str ''Male'',
          Str ''Overall'', Str ''Overall'', Str ''Overall'']),
       (''DataValue'', [Num (Fin 10), NA, Num (Fin 5), Num (Fin 99), Num (Fin 30), Num (Fin 40),
          Num (Fin 50)]),
       (''DataValueUnit'', [Str ''%'', Str ''%'', NA, Str ''%'', Str ''Number'', Str ''%'', NA]),
       (''per_gop'', [Num (Fin 40), Num (Fin 40), Num (Fin 70), Num (Fin 70), Num (Fin 70),
          Num (Fin 70), Num (Fin 55)])]\<rparr> :: nat frame)"
  let ?E = "\<lparr>question = Str ''Q1'', units = Str ''%'',
        correlation = NpFloat (pearson [Fin 10, Fin 30, Fin 40, Fin 50] [Fin 40, Fin 70, Fin 70, Fin 55]),
        sub_gdf = (\<lparr>index_len = 5, cols =
          [(''Question'', [Str ''Q1'', Str ''Q1'', Str ''Q1'', Str ''Q1'', Str ''Q1'']),
           (''Stratification1'', [Str ''Overall'', Str ''Overall'', Str ''Overall'', Str ''Overall'',
              Str ''Overall'']),
           (''DataValue'', [Num (Fin 10), NA, Num (Fin 30), Num (Fin 40), Num (Fin 50)]),
           (''DataValueUnit'', [Str ''%'', Str ''%'', Str ''Number'', Str ''%'', NA]),
           (''per_gop'', [Num (Fin 40), Num (Fin 40), Num (Fin 70), Num (Fin 70), Num (Fin 55)])]\<rparr>
          :: nat frame)\<rparr>"
  let ?L = "\<lparr>parse_numeric = (\<lambda>s. None), corrcoef = pearson, merge_order = (\<lambda>lt n. [0..<n]), str_float = (\<lambda>x. ''0.65''), round3 = (\<lambda>x. x)\<rparr>"
  have an: "analysable ?G" by (simp add: analysable_def wf_frame_def col_names_def)
  have qs: "get_col ?G ''Question''
       = Inr [Str ''Q1'', Str ''Q1'', Str ''Q2'', Str ''Q1'', Str ''Q1'', Str ''Q1'', Str ''Q1'']"
    by (simp add: get_col_def)
  have q: "Str ''Q2'' \<in> set [Str ''Q1'', Str ''Q1'', Str ''Q2'', Str ''Q1'', Str ''Q1'', Str ''Q1'', Str ''Q1'' :: nat cell]"
    by simp
  have qr: "qualifying_rows ?G (Str ''Q2'') = [2]"
    by (simp add: qualifying_rows_def cell_at_def upt_rec)
  have c2: "cell_at ?G ''DataValueUnit'' 2 = NA" by (simp add: cell_at_def)
  have nu: "\<forall>i\<in>set (qualifying_rows ?G (Str ''Q2'')). cell_at ?G ''DataValueUnit'' i = NA"
    unfolding qr using c2 by simp
  have cs: "CORRELATIONS ?L ?G = Inr [?E]" by (simp add: eval_defs)
  from question_without_units_is_skipped[OF an qs q nu, of ?L] obtain cs where
    r: "CORRELATIONS ?L ?G = Inr cs" "\<forall>e\<in>set cs. question e \<noteq> Str ''Q2''"
       "shown (analyse ?L ?G) = Inl IndexError \<longleftrightarrow> cs = []"
    by blast
  from r(1) cs have e: "cs = [?E]" by simp
  have sh: "shown (analyse ?L ?G) \<noteq> Inl IndexError" using r(3) e by simp
  have rf: "report_file (analyse ?L ?G)
       = Some (headline @ format_200 ''Q1 (%)'' @ ''0.65'' @ [newline])"
    unfolding analyse_def cs
    by (simp add: report_and_plot_def write_report_def sorted_CORRELATIONS_def list_sort_def short_sort_def
          report_line_def qstring_def)
  have "\<exists>cs. CORRELATIONS ?L ?G = Inr cs \<and> cs = [?E] \<and> (\<forall>e\<in>set cs. question e \<noteq> Str ''Q2'')"
    using r(1,2) e by blast
  with an qs q qr c2 rf sh show ?thesis by (simp only: simp_thms)
qed


theorem empty_results_abort_plot_witness:
  "CORRELATIONS \<lparr>parse_numeric = (\<lambda>s. None), corrcoef = pearson, merge_order = (\<lambda>lt n. [0..<n]), str_float = (\<lambda>x. ''nan''), round3 = (\<lambda>x. x)\<rparr> (\<lparr>index_len = 2, cols =
      [(''Question'', [Str ''Q1'', Str ''Q1'']),
       (''Stratification1'', [Str ''Male'', Str ''Female'']),
       (''DataValue'', [Num (Fin 1), Num (Fin 2)]),
       (''DataValueUnit'', [Str ''%'', Str ''%'']),
       (''per_gop'', [Num (Fin 40), Num (Fin 70)])]\<rparr> :: nat frame) = Inr []
   \<and> analyse \<lparr>parse_numeric = (\<lambda>s. None), corrcoef = pearson, merge_order = (\<lambda>lt n. [0..<n]), str_float = (\<lambda>x. ''nan''), round3 = (\<lambda>x. x)\<rparr> (\<lparr>index_len = 2, cols =
      [(''Question'', [Str ''Q1'', Str ''Q1'']),
       (''Stratification1'', [Str ''Male'', Str ''Female'']),
       (''DataValue'', [Num (Fin 1), Num (Fin 2)]),
       (''DataValueUnit'', [Str ''%'', Str ''%'']),
       (''per_gop'', [Num (Fin 40), Num (Fin 70)])]\<rparr> :: nat frame) = \<lparr>report_file = Some headline, shown = Inl IndexError\<rparr>
   \<and> run \<lparr>parse_numeric = (\<lambda>s. None), corrcoef = pearson, merge_order = (\<lambda>lt n. [0..<n]), str_float = (\<lambda>x. ''nan''), round3 = (\<lambda>x. x)\<rparr> (\<lparr>index_len = 3, cols =
      [(''LocationAbbr'', [Str ''AL'', Str ''AK'', Str ''AZ'']),
       (''Question'', [Str ''Q1'', Str ''Q2'', Str ''Q3'']),
       (''Stratification1'', [Str ''Male'', Str ''Female'', Str ''Other'']),
       (''DataValue'', [Str ''1'', Str ''2'', Str ''3'']),
       (''DataValueUnit'', [Str ''%'', Str ''Number'', Str ''cases'']),
       (''DataValueFootnoteSymbol'', [NA, NA, NA]), (''TopicID'', [NA, NA, NA]),
       (''QuestionID'', [NA, NA, NA]), (''DataValueTypeID'', [NA, NA, NA]),
       (''StratificationCategoryID1'', [NA, NA, NA]), (''StratificationID1'', [NA, NA, NA])]\<rparr>
      :: nat frame) [] [] = \<lparr>report_file = Some headline, shown = Inl IndexError\<rparr>
   \<and> CORRELATIONS \<lparr>parse_numeric = (\<lambda>s. None), corrcoef = pearson, merge_order = (\<lambda>lt n. [0..<n]), str_float = (\<lambda>x. ''nan''), round3 = (\<lambda>x. x)\<rparr> (\<lparr>index_len = 7, cols =
      [(''Question'', [Str ''Q1'', Str ''Q1'', Str ''Q2'', Str ''Q1'', Str ''Q1'', Str ''Q1'', Str ''Q1'']),
       (''Stratification1'', [Str ''Overall'', Str ''Overall'', Str ''Overall'', Str ''Male'',
          Str ''Overall'', Str ''Overall'', Str ''Overall'']),
       (''DataValue'', [Num (Fin 10), NA, Num (Fin 5), Num (Fin 99), Num (Fin 30), Num (Fin 40),
          Num (Fin 50)]),
       (''DataValueUnit'', [Str ''%'', Str ''%'', NA, Str ''%'', Str ''Number'', Str ''%'', NA]),
       (''per_gop'', [Num (Fin 40), Num (Fin 40), Num (Fin 70), Num (Fin 70), Num (Fin 70),
          Num (Fin 70), Num (Fin 55)])]\<rparr> :: nat frame) = Inr [\<lparr>question = Str ''Q1'', units = Str ''%'',
        correlation = NpFloat (pearson [Fin 10, Fin 30, Fin 40, Fin 50] [Fin 40, Fin 70, Fin 70, Fin 55]),
        sub_gdf = (\<lparr>index_len = 5, cols =
          [(''Question'', [Str ''Q1'', Str ''Q1'', Str ''Q1'', Str ''Q1'', Str ''Q1'']),
           (''Stratification1'', [Str ''Overall'', Str ''Overall'', Str ''Overall'', Str ''Overall'',
              Str ''Overall'']),
           (''DataValue'', [Num (Fin 10), NA, Num (Fin 30), Num (Fin 40), Num (Fin 50)]),
           (''DataValueUnit'', [Str ''%'', Str ''%'', Str ''Number'', Str ''%'', NA]),
           (''per_gop'', [Num (Fin 40), Num (Fin 40), Num (Fin 70), Num (Fin 70), Num (Fin 55)])]\<rparr>
          :: nat frame)\<rparr>]
   \<and> shown (analyse \<lparr>parse_numeric = (\<lambda>s. None), corrcoef = pearson, merge_order = (\<lambda>lt n. [0..<n]), str_float = (\<lambda>x. ''nan''), round3 = (\<lambda>x. x)\<rparr> (\<lparr>index_len = 7, cols =
      [(''Question'', [Str ''Q1'', Str ''Q1'', Str ''Q2'', Str ''Q1'', Str ''Q1'', Str ''Q1'', Str ''Q1'']),
       (''Stratification1'', [Str ''Overall'', Str ''Overall'', Str ''Overall'', Str ''Male'',
          Str ''Overall'', Str ''Overall'', Str ''Overall'']),
       (''DataValue'', [Num (Fin 10), NA, Num (Fin 5), Num (Fin 99), Num (Fin 30), Num (Fin 40),
          Num (Fin 50)]),
       (''DataValueUnit'', [Str ''%'', Str ''%'', NA, Str ''%'', Str ''Number'', Str ''%'', NA]),
       (''per_gop'', [Num (Fin 40), Num (Fin 40), Num (Fin 70), Num (Fin 70), Num (Fin 70),
          Num (Fin 70), Num (Fin 55)])]\<rparr> :: nat frame)) \<noteq> Inl IndexError"
proof -
  let ?H = "(\<lparr>index_len = 2, cols =
      [(''Question'', [Str ''Q1'', Str ''Q1'']),
       (''Stratification1'', [Str ''Male'', Str ''Female'']),
       (''DataValue'', [Num (Fin 1), Num (Fin 2)]),
       (''DataValueUnit'', [Str ''%'', Str ''%'']),
       (''per_gop'', [Num (Fin 40), Num (Fin 70)])]\<rparr> :: nat frame)"
  let ?G = "(\<lparr>index_len = 7, cols =
      [(''Question'', [Str ''Q1'', Str ''Q1'', Str ''Q2'', Str ''Q1'', Str ''Q1'', Str ''Q1'', Str ''Q1'']),
       (''Stratification1'', [Str ''Overall'', Str ''Overall'', Str ''Overall'', Str ''Male'',
          Str ''Overall'', Str ''Overall'', Str ''Overall'']),
       (''DataValue'', [Num (Fin 10), NA, Num (Fin 5), Num (Fin 99), Num (Fin 30), Num (Fin 40),
          Num (Fin 50)]),
       (''DataValueUnit'', [Str ''%'', Str ''%'', NA, Str ''%'', Str ''Number'', Str ''%'', NA]),
       (''per_gop'', [Num (Fin 40), Num (Fin 40), Num (Fin 70), Num (Fin 70), Num (Fin 70),
          Num (Fin 70), Num (Fin 55)])]\<rparr> :: nat frame)"
  let ?E = "\<lparr>question = Str ''Q1'', units = Str ''%'',
        correlation = NpFloat (pearson [Fin 10, Fin 30, Fin 40, Fin 50] [Fin 40, Fin 70, Fin 70, Fin 55]),
        sub_gdf = (\<lparr>index_len = 5, cols =
          [(''Question'', [Str ''Q1'', Str ''Q1'', Str ''Q1'', Str ''Q1'', Str ''Q1'']),
           (''Stratification1'', [Str ''Overall'', Str ''Overall'', Str ''Overall'', Str ''Overall'',
              Str ''Overall'']),
           (''DataValue'', [Num (Fin 10), NA, Num (Fin 30), Num (Fin 40), Num (Fin 50)]),
           (''DataValueUnit'', [Str ''%'', Str ''%'', Str ''Number'', Str ''%'', NA]),
           (''per_gop'', [Num (Fin 40), Num (Fin 40), Num (Fin 70), Num (Fin 70), Num (Fin 55)])]\<rparr>
          :: nat frame)\<rparr>"
  let ?L = "\<lparr>parse_numeric = (\<lambda>s. None), corrcoef = pearson, merge_order = (\<lambda>lt n. [0..<n]), str_float = (\<lambda>x. ''nan''), round3 = (\<lambda>x. x)\<rparr>"
  have c0: "CORRELATIONS ?L ?H = Inr []" by (simp add: eval_defs)
  have cs: "CORRELATIONS ?L ?G = Inr [?E]" by (simp add: eval_defs)
  have ru: "run ?L (\<lparr>index_len = 3, cols =
      [(''LocationAbbr'', [Str ''AL'', Str ''AK'', Str ''AZ'']),
       (''Question'', [Str ''Q1'', Str ''Q2'', Str ''Q3'']),
       (''Stratification1'', [Str ''Male'', Str ''Female'', Str ''Other'']),
       (''DataValue'', [Str ''1'', Str ''2'', Str ''3'']),
       (''DataValueUnit'', [Str ''%'', Str ''Number'', Str ''cases'']),
       (''DataValueFootnoteSymbol'', [NA, NA, NA]), (''TopicID'', [NA, NA, NA]),
       (''QuestionID'', [NA, NA, NA]), (''DataValueTypeID'', [NA, NA, NA]),
       (''StratificationCategoryID1'', [NA, NA, NA]), (''StratificationID1'', [NA, NA, NA])]\<rparr>
      :: nat frame) [] [] = \<lparr>report_file = Some headline, shown = Inl IndexError\<rparr>"
    by (simp add: run_def prune_columns_def drop_columns_def useless_cols_def denylist_def
       col_names_def coerce_DataValue_def set_col_def healthdata_gdf_def add_geometry_def
       add_votes_def grouped_def groupby_sum_def group_keys_def voteDict_def stateDict_def
       location_cells_def vote_lookup_def geometry_lookup_def analyse_def report_and_plot_def
       write_report_def generate_plot_def sorted_CORRELATIONS_def list_sort_def short_sort_def eval_defs)
  have a: "analyse ?L ?H = \<lparr>report_file = Some headline, shown = Inl IndexError\<rparr>"
    using empty_results_abort_plot[of ?L ?H] c0 by blast
  have b: "shown (analyse ?L ?G) \<noteq> Inl IndexError"
    using empty_results_abort_plot[of ?L ?G] cs by blast
  from c0 a ru cs b show ?thesis by (simp only: simp_thms)
qed

section \<open>The report and the plot when a coefficient is undefined\<close>

text \<open>
  Every comparison with \<^verbatim>\<open>NaN\<close> is false, so on results recorded with the coefficients
  0.2, \<^verbatim>\<open>NaN\<close>, -0.5 (or 1, \<^verbatim>\<open>NaN\<close>, -1) in this order \<^verbatim>\<open>count_run\<close> takes the whole
  list for one non-descending run and the sort of line 116 leaves the list as it is.  The
  table \<open>survey_with_constant\<close> is such an input of the script.
\<close>

lemma pearson_constant: "pearson [Fin 5, Fin 5] [Fin 30, Fin 40] = None"
  by (simp add: pearson_def real_values_def mean_def map_filter_simps Let_def)

lemma survey_with_constant_results:
  "CORRELATIONS exact_lib survey_with_constant =
     Inr [\<lparr>question = Str ''Q1'', units = Str ''%'', correlation = NpFloat (Some 1),
           sub_gdf = rows_of survey_with_constant [0, 1, 2, 4, 5]\<rparr>,
          \<lparr>question = Str ''Q3'', units = Str ''cases'', correlation = NpFloat None,
           sub_gdf = rows_of survey_with_constant [6, 7]\<rparr>,
          \<lparr>question = Str ''Q2'', units = Str ''Number'', correlation = NpFloat (Some (- 1)),
           sub_gdf = rows_of survey_with_constant [8, 9, 10, 11, 12]\<rparr>]"
  by (simp add: survey_with_constant_def exact_lib_def rows_of_def eval_defs
        pearson_rising pearson_falling pearson_constant)

lemma survey_with_constant_run:
  "analyse exact_lib survey_with_constant =
     \<lparr>report_file = Some (headline @ format_200 ''Q1 (%)'' @ ''1.0'' @ [newline]
                                    @ format_200 ''Q3 (cases)'' @ ''nan'' @ [newline]
                                    @ format_200 ''Q2 (Number)'' @ ''-1.0'' @ [newline]),
      shown = Inr \<lparr>suptitle = ''Q1 (%)'', to_plot = rows_of survey_with_constant [0, 1, 2, 4, 5],
                   colour_column = ''DataValue'', xlim = (- 180, - 60), ylim = (20, 75)\<rparr>\<rparr>"
  unfolding analyse_def survey_with_constant_results
  by (simp add: report_and_plot_def write_report_def report_line_def qstring_def
        generate_plot_def sorted_CORRELATIONS_def list_sort_def short_sort_def key_lt_def
        float_lt_def exact_lib_def)

text \<open>
  C5.  The report is meant to be ascending by coefficient: line 116 sorts the results by
  their coefficient.  On the results with the coefficients 0.2, \<^verbatim>\<open>NaN\<close>, -0.5, recorded
  in this order, the code does not deliver that: the sort leaves the list as it is, and the
  line for 0.2 is written before the line for -0.5, where the claim has the line for -0.5
  first.  Likewise the script, run on the table \<open>survey_with_constant\<close>, writes the line of
  the coefficient 1 before the line of the coefficient -1.
\<close>

theorem report_order_with_nan:
  "report_file (report_and_plot
       \<lparr>parse_numeric = (\<lambda>s. None), corrcoef = pearson, merge_order = (\<lambda>lt n. [0..<n]),
        str_float = (\<lambda>x. if x = Some (2 / 10) then ''0.2''
                          else if x = Some (- 5 / 10) then ''-0.5'' else ''nan''),
        round3 = (\<lambda>x. x)\<rparr>
       [\<lparr>question = Str ''A'', units = Str ''u'', correlation = NpFloat (Some (2 / 10)),
          sub_gdf = \<lparr>index_len = 1, cols = []\<rparr>\<rparr>,
        \<lparr>question = Str ''B'', units = Str ''u'', correlation = NpFloat None,
          sub_gdf = \<lparr>index_len = 2, cols = []\<rparr>\<rparr>,
        \<lparr>question = Str ''C'', units = Str ''u'', correlation = NpFloat (Some (- 5 / 10)),
          sub_gdf = (\<lparr>index_len = 3, cols = []\<rparr> :: nat frame)\<rparr>])
     = Some (headline @ format_200 ''A (u)'' @ ''0.2'' @ [newline]
                      @ format_200 ''B (u)'' @ ''nan'' @ [newline]
                      @ format_200 ''C (u)'' @ ''-0.5'' @ [newline])
   \<and> (- 5 / 10 :: real) < 2 / 10
   \<and> report_file (analyse exact_lib survey_with_constant)
     = Some (headline @ format_200 ''Q1 (%)'' @ ''1.0'' @ [newline]
                      @ format_200 ''Q3 (cases)'' @ ''nan'' @ [newline]
                      @ format_200 ''Q2 (Number)'' @ ''-1.0'' @ [newline])"
  unfolding survey_with_constant_run
  by (simp add: report_and_plot_def write_report_def report_line_def qstring_def
        sorted_CORRELATIONS_def list_sort_def short_sort_def key_lt_def float_lt_def)

text \<open>
  C7.  The map is meant to show the question with the lowest coefficient: line 131 takes
  the first entry of the list that line 116 has sorted.  On the results with the
  coefficients 0.2, \<^verbatim>\<open>NaN\<close>, -0.5, recorded in this order, the code does not deliver
  that: the sorted list still starts with the entry of 0.2, and the map drawn is that of
  question A with its subset, although question C has the lower coefficient.  Likewise the
  script, run on the table \<open>survey_with_constant\<close>, draws the map of the question with the
  coefficient 1, not of the one with the coefficient -1.
\<close>

theorem plot_with_nan:
  "shown (report_and_plot
       \<lparr>parse_numeric = (\<lambda>s. None), corrcoef = pearson, merge_order = (\<lambda>lt n. [0..<n]),
        str_float = (\<lambda>x. if x = Some (2 / 10) then ''0.2''
                          else if x = Some (- 5 / 10) then ''-0.5'' else ''nan''),
        round3 = (\<lambda>x. x)\<rparr>
       [\<lparr>question = Str ''A'', units = Str ''u'', correlation = NpFloat (Some (2 / 10)),
          sub_gdf = \<lparr>index_len = 1, cols = []\<rparr>\<rparr>,
        \<lparr>question = Str ''B'', units = Str ''u'', correlation = NpFloat None,
          sub_gdf = \<lparr>index_len = 2, cols = []\<rparr>\<rparr>,
        \<lparr>question = Str ''C'', units = Str ''u'', correlation = NpFloat (Some (- 5 / 10)),
          sub_gdf = (\<lparr>index_len = 3, cols = []\<rparr> :: nat frame)\<rparr>])
   = Inr \<lparr>suptitle = ''A (u)'', to_plot = \<lparr>index_len = 1, cols = []\<rparr>,
          colour_column = ''DataValue'', xlim = (- 180, - 60), ylim = (20, 75)\<rparr>
   \<and> (- 5 / 10 :: real) < 2 / 10
   \<and> shown (analyse exact_lib survey_with_constant)
     = Inr \<lparr>suptitle = ''Q1 (%)'', to_plot = rows_of survey_with_constant [0, 1, 2, 4, 5],
            colour_column = ''DataValue'', xlim = (- 180, - 60), ylim = (20, 75)\<rparr>"
  unfolding survey_with_constant_run
  by (simp add: report_and_plot_def write_report_def report_line_def qstring_def
        generate_plot_def sorted_CORRELATIONS_def list_sort_def short_sort_def key_lt_def float_lt_def)


section \<open>From the cleaned table to the loop\<close>

text \<open>Cleaning and coercion keep a table well formed, and line 38 leaves numbers and missing
  values only in \<^verbatim>\<open>DataValue\<close>.\<close>

lemma wf_prune:
  assumes "wf_frame h" and "prune_columns h = Inr h1"
  shows "wf_frame h1"
proof -
  note pc = prune_cols[OF assms(2)]
  have "distinct (col_names h1)"
    using assms(1) pc by (simp add: wf_frame_def col_names_def distinct_map_filter)
  moreover have "list_all (\<lambda>cv. length (snd cv) = index_len h1) (cols h1)"
    using assms(1) pc by (simp add: wf_frame_def list_all_iff)
  ultimately show ?thesis by (simp add: wf_frame_def)
qed

lemma numeric_to_numeric_cell: "numeric (to_numeric_cell parse c)"
  by (cases c) (auto split: option.splits)

lemma set_col_present:
  assumes "c \<in> set (col_names h)"
  shows "col_names (set_col h c vs) = col_names h"
    and "index_len (set_col h c vs) = index_len h"
    and "\<And>d ws. (d, ws) \<in> set (cols (set_col h c vs)) \<Longrightarrow>
           (d = c \<and> ws = vs) \<or> (d \<noteq> c \<and> (d, ws) \<in> set (cols h))"
proof -
  have e: "cols (set_col h c vs) = map (\<lambda>cv. if fst cv = c then (c, vs) else cv) (cols h)"
    using assms by (simp add: set_col_def)
  show "col_names (set_col h c vs) = col_names h"
    unfolding col_names_def e by (induction "cols h") auto
  show "index_len (set_col h c vs) = index_len h" using assms by (simp add: set_col_def)
  show "\<And>d ws. (d, ws) \<in> set (cols (set_col h c vs)) \<Longrightarrow>
           (d = c \<and> ws = vs) \<or> (d \<noteq> c \<and> (d, ws) \<in> set (cols h))"
    unfolding e by (auto split: if_splits)
qed

lemma coerce_result:
  assumes wf: "wf_frame h1" and co: "coerce_DataValue parse h1 = Inr h2"
  shows "wf_frame h2" and "col_names h2 = col_names h1"
    and "''DataValue'' \<in> set (col_names h2)"
    and "\<And>vs. (''DataValue'', vs) \<in> set (cols h2) \<Longrightarrow> list_all numeric vs"
proof -
  from co obtain vs where vs: "map_of (cols h1) ''DataValue'' = Some vs"
    and h2: "h2 = set_col h1 ''DataValue'' (map (to_numeric_cell parse) vs)"
    by (auto simp: coerce_DataValue_def get_attr_def split: option.splits)
  have mem: "(''DataValue'', vs) \<in> set (cols h1)" using vs by (rule map_of_SomeD)
  then have m: "''DataValue'' \<in> set (col_names h1)"
    by (auto simp: col_names_def intro: rev_image_eqI)
  note sp = set_col_present[OF m, where vs = "map (to_numeric_cell parse) vs"]
  show n: "col_names h2 = col_names h1" unfolding h2 by (rule sp(1))
  show "''DataValue'' \<in> set (col_names h2)" using m n by simp
  have len: "length vs = index_len h1" using wf mem by (auto simp: wf_frame_def list_all_iff)
  have "list_all (\<lambda>cv. length (snd cv) = index_len h2) (cols h2)"
    unfolding list_all_iff
  proof
    fix cv assume "cv \<in> set (cols h2)"
    then have "(fst cv, snd cv) \<in> set (cols (set_col h1 ''DataValue'' (map (to_numeric_cell parse) vs)))"
      by (simp add: h2)
    from sp(3)[OF this] show "length (snd cv) = index_len h2"
      using wf len sp(2) by (auto simp: h2 wf_frame_def list_all_iff)
  qed
  then show "wf_frame h2" using wf n by (simp add: wf_frame_def)
  show "\<And>ws. (''DataValue'', ws) \<in> set (cols h2) \<Longrightarrow> list_all numeric ws"
    unfolding h2 by (auto dest!: sp(3) simp: list_all_iff numeric_to_numeric_cell)
qed

lemma numeric_cell_of: "numeric (cell_of v)"
  by (cases v) (simp_all add: cell_of_def)

lemma numeric_vote_lookup: "numeric (snd (vote_lookup vdict loc))"
  by (cases loc) (auto simp: vote_lookup_def numeric_cell_of split: option.splits)

text \<open>The joined table is one the loop of line 104 runs on, when the cleaned table has
  the columns the loop reads.\<close>

lemma joined_table_analysable:
  assumes wf: "wf_frame h"
    and fresh: "''per_dem'' \<notin> set (col_names h)" "''per_gop'' \<notin> set (col_names h)"
      "''geometry'' \<notin> set (col_names h)"
    and present: "{''Question'', ''Stratification1'', ''DataValue'', ''DataValueUnit''} \<subseteq> set (col_names h)"
    and num: "\<And>vs. (''DataValue'', vs) \<in> set (cols h) \<Longrightarrow> list_all numeric vs"
  shows "analysable (healthdata_gdf vd ss h)"
proof -
  let ?pd = "map (\<lambda>loc. fst (vote_lookup (voteDict (grouped vd)) loc)) (location_cells h)"
  let ?pg = "map (\<lambda>loc. snd (vote_lookup (voteDict (grouped vd)) loc)) (location_cells h)"
  let ?geo = "map (geometry_lookup (stateDict ss)) (location_cells h)"
  let ?g = "healthdata_gdf vd ss h"
  have c: "cols ?g = cols h @ [(''per_dem'', ?pd), (''per_gop'', ?pg), (''geometry'', ?geo)]"
    and i: "index_len ?g = index_len h"
    using healthdata_gdf_cols[OF fresh, of vd ss] by simp_all
  have n: "col_names ?g = col_names h @ [''per_dem'', ''per_gop'', ''geometry'']"
    by (simp add: col_names_def c)
  have len: "length (location_cells h) = index_len h" by (rule length_location_cells[OF wf])
  have w: "wf_frame ?g"
    using wf fresh len by (auto simp: wf_frame_def n c i)
  have p: "list_all (\<lambda>c. c \<in> set (col_names ?g))
       [''Question'', ''Stratification1'', ''DataValue'', ''per_gop'', ''DataValueUnit'']"
    using present by (simp add: n)
  have q: "list_all (\<lambda>cv. fst cv \<in> {''DataValue'', ''per_gop''} \<longrightarrow> list_all numeric (snd cv)) (cols ?g)"
    unfolding c list_all_iff
  proof
    fix cv assume cv: "cv \<in> set (cols h @ [(''per_dem'', ?pd), (''per_gop'', ?pg), (''geometry'', ?geo)])"
    show "fst cv \<in> {''DataValue'', ''per_gop''} \<longrightarrow> Ball (set (snd cv)) numeric"
    proof
      assume f: "fst cv \<in> {''DataValue'', ''per_gop''}"
      show "Ball (set (snd cv)) numeric"
      proof (cases "cv \<in> set (cols h)")
        case True
        then have "fst cv \<in> set (col_names h)" by (simp add: col_names_def)
        then have "fst cv = ''DataValue''" using f fresh(2) by auto
        then have "(''DataValue'', snd cv) \<in> set (cols h)" using True by (metis prod.collapse)
        from num[OF this] show ?thesis by (simp add: list_all_iff)
      next
        case False
        then have "cv = (''per_gop'', ?pg)" using cv f by auto
        then show ?thesis by (auto simp: numeric_vote_lookup)
      qed
    qed
  qed
  show ?thesis unfolding analysable_def using w p q by simp
qed

end
